theory Spec2Isabelle
  imports Main "HOL-Library.Multiset" "HOL-Library.AList" "HOL-Library.Sublist"
begin

section \<open>Data model\<close>

text \<open>
  Cards are Python strings and a hand or a deck is a Python list of them. The exceptions
  the engine can raise are \<open>IndexError\<close> (\<open>list.pop\<close> on an empty list),
  \<open>ValueError\<close> (\<open>int\<close> on a string that is no integer literal) and \<open>KeyError\<close>
  (subscripting a dictionary at a missing key). A computation that raises returns
  \<open>Inl\<close> of the exception.
\<close>

datatype error = IndexError | ValueError | KeyError

type_synonym card = string
type_synonym hand = "string list"

text \<open>\<open>CARD_DECK = ['2', ..., '10', 'J', 'Q', 'K', 'A'] * 4\<close>\<close>

definition RANKS :: "card list" where
  "RANKS = [''2'', ''3'', ''4'', ''5'', ''6''] @ [''7'', ''8'', ''9'', ''10''] @
           [''J'', ''Q'', ''K'', ''A'']"

definition CARD_DECK :: "card list" where
  "CARD_DECK = concat (replicate 4 RANKS)"

text \<open>Python's \<open>lst * n\<close> for an integer \<open>n\<close>: the empty list when \<open>n \<le> 0\<close>.\<close>

definition list_times :: "'a list \<Rightarrow> int \<Rightarrow> 'a list" where
  "list_times xs n = concat (replicate (nat n) xs)"

subsection \<open>Python's \<open>int(str)\<close>\<close>

text \<open>
  \<open>int(s)\<close> skips surrounding whitespace (tab, line feed, vertical tab, form feed,
  carriage return, space), reads an optional sign and then decimal digits, where single
  underscores may stand between digits; anything else raises \<open>ValueError\<close>. The model
  covers ASCII strings: the blanks and digits of other scripts that \<open>int\<close> also accepts,
  and the limit that recent Python versions put on the number of digits, are outside it.
  The engine only ever converts the ranks \<open>'2'\<close> to \<open>'10'\<close> of its own deck.
\<close>

definition is_space :: "char \<Rightarrow> bool" where
  "is_space c = (let n = (of_char c :: nat) in (9 \<le> n \<and> n \<le> 13) \<or> n = 32)"

definition is_digit :: "char \<Rightarrow> bool" where
  "is_digit c = (let n = (of_char c :: nat) in 48 \<le> n \<and> n \<le> 57)"

definition digit_val :: "char \<Rightarrow> int" where
  "digit_val c = int (of_char c) - 48"

definition strip :: "string \<Rightarrow> string" where
  "strip s = rev (dropWhile is_space (rev (dropWhile is_space s)))"

fun parse_dec :: "int \<Rightarrow> string \<Rightarrow> error + int" where
  "parse_dec acc [] = Inr acc"
| "parse_dec acc (c # cs) =
     (if c = CHR ''_'' then
        (case cs of [] \<Rightarrow> Inl ValueError
         | d # _ \<Rightarrow> if is_digit d then parse_dec acc cs else Inl ValueError)
      else if is_digit c then parse_dec (10 * acc + digit_val c) cs
      else Inl ValueError)"

definition parse_unsigned :: "string \<Rightarrow> error + int" where
  "parse_unsigned s =
     (case s of [] \<Rightarrow> Inl ValueError
      | c # _ \<Rightarrow> if is_digit c then parse_dec 0 s else Inl ValueError)"

definition py_int :: "string \<Rightarrow> error + int" where
  "py_int s =
     (case strip s of [] \<Rightarrow> Inl ValueError
      | c # r \<Rightarrow>
          if c = CHR ''-'' then
            (case parse_unsigned r of Inl e \<Rightarrow> Inl e | Inr n \<Rightarrow> Inr (- n))
          else if c = CHR ''+'' then parse_unsigned r
          else parse_unsigned (c # r))"

section \<open>Hand evaluator\<close>

text \<open>
  \<open>BlackjackGame.calculate_hand_value\<close> (blackjack.py). The \<open>for\<close> loop over the hand
  carries \<open>(value, aces)\<close>; the \<open>while value > 21 and aces\<close> loop follows. Both
  variables are Python integers; \<open>aces\<close> is true when it is not zero.
\<close>

fun sum_cards :: "hand \<Rightarrow> int \<times> int \<Rightarrow> error + (int \<times> int)" where
  "sum_cards [] (val, aces) = Inr (val, aces)"
| "sum_cards (c # rest) (val, aces) =
     (if c \<in> set [''J'', ''Q'', ''K''] then sum_cards rest (val + 10, aces)
      else if c = ''A'' then sum_cards rest (val + 11, aces + 1)
      else (case py_int c of
              Inl e \<Rightarrow> Inl e
            | Inr n \<Rightarrow> sum_cards rest (val + n, aces)))"

function adjust_aces :: "int \<Rightarrow> int \<Rightarrow> int" where
  "adjust_aces val aces =
     (if val > 21 \<and> aces \<noteq> 0 then adjust_aces (val - 10) (aces - 1) else val)"
  by pat_completeness auto
termination
  by (relation "measure (\<lambda>(val, aces). nat (val - 21))") auto

declare adjust_aces.simps [simp del]

definition calculate_hand_value :: "hand \<Rightarrow> error + int" where
  "calculate_hand_value hand =
     (case sum_cards hand (0, 0) of
        Inl e \<Rightarrow> Inl e
      | Inr (val, aces) \<Rightarrow> Inr (adjust_aces val aces))"

text \<open>
  The module-level \<open>calculate_hand_value\<close> of blackjack_strategies.py, embedded from its
  own text, and the strategy \<open>basic\<close> that calls it.
\<close>

fun strategies_sum_cards :: "hand \<Rightarrow> int \<times> int \<Rightarrow> error + (int \<times> int)" where
  "strategies_sum_cards [] (val, aces) = Inr (val, aces)"
| "strategies_sum_cards (c # rest) (val, aces) =
     (if c \<in> set [''J'', ''Q'', ''K''] then strategies_sum_cards rest (val + 10, aces)
      else if c = ''A'' then strategies_sum_cards rest (val + 11, aces + 1)
      else (case py_int c of
              Inl e \<Rightarrow> Inl e
            | Inr n \<Rightarrow> strategies_sum_cards rest (val + n, aces)))"

function strategies_adjust_aces :: "int \<Rightarrow> int \<Rightarrow> int" where
  "strategies_adjust_aces val aces =
     (if val > 21 \<and> aces \<noteq> 0 then strategies_adjust_aces (val - 10) (aces - 1) else val)"
  by pat_completeness auto
termination
  by (relation "measure (\<lambda>(val, aces). nat (val - 21))") auto

declare strategies_adjust_aces.simps [simp del]

definition strategies_calculate_hand_value :: "hand \<Rightarrow> error + int" where
  "strategies_calculate_hand_value hand =
     (case strategies_sum_cards hand (0, 0) of
        Inl e \<Rightarrow> Inl e
      | Inr (val, aces) \<Rightarrow> Inr (strategies_adjust_aces val aces))"

definition basic :: "hand \<Rightarrow> card \<Rightarrow> error + bool" where
  "basic player_hand dealer_upcard =
     (case strategies_calculate_hand_value player_hand of
        Inl e \<Rightarrow> Inl e
      | Inr v \<Rightarrow> Inr (v < 17))"

section \<open>Outcome resolver\<close>

text \<open>\<open>BlackjackGame.determine_winner\<close>: the player's hand is valued first.\<close>

definition determine_winner :: "hand \<Rightarrow> hand \<Rightarrow> error + string" where
  "determine_winner player_hand dealer_hand =
     (case calculate_hand_value player_hand of
        Inl e \<Rightarrow> Inl e
      | Inr player_value \<Rightarrow>
          (case calculate_hand_value dealer_hand of
             Inl e \<Rightarrow> Inl e
           | Inr dealer_value \<Rightarrow>
               Inr (if player_value > 21 then ''lose''
                    else if dealer_value > 21 \<or> player_value > dealer_value then ''win''
                    else if player_value < dealer_value then ''lose''
                    else ''draw'')))"

section \<open>Deck\<close>

text \<open>
  The attributes of a \<open>BlackjackGame\<close> object. \<open>random.shuffle\<close> is library code: it is
  a parameter \<open>shuffle\<close> that maps the state of the random source and a list to the
  shuffled list and the next state of the random source.
\<close>

record game =
  n_card_decks :: int
  logging :: bool
  cards :: "card list"

type_synonym 'g shuffler = "'g \<Rightarrow> card list \<Rightarrow> card list \<times> 'g"

text \<open>What the engine relies on: shuffling permutes the list.\<close>

definition permutes_cards :: "'g shuffler \<Rightarrow> bool" where
  "permutes_cards shuffle = (\<forall>g xs. mset (fst (shuffle g xs)) = mset xs)"

text \<open>\<open>BlackjackGame.__init__\<close>\<close>

definition init :: "'g shuffler \<Rightarrow> int \<Rightarrow> bool \<Rightarrow> 'g \<Rightarrow> game \<times> 'g" where
  "init shuffle n lg rng =
     (let (cs, rng') = shuffle rng (list_times CARD_DECK n)
      in (\<lparr>n_card_decks = n, logging = lg, cards = cs\<rparr>, rng'))"

text \<open>\<open>BlackjackGame.deal_card\<close>: \<open>self.cards.pop()\<close> takes the last element.\<close>

definition deal_card :: "game \<Rightarrow> error + (card \<times> game)" where
  "deal_card self =
     (if cards self = [] then Inl IndexError
      else Inr (last (cards self), self\<lparr>cards := butlast (cards self)\<rparr>))"

text \<open>\<open>BlackjackGame.reset\<close>\<close>

definition reset :: "'g shuffler \<Rightarrow> game \<times> 'g \<Rightarrow> game \<times> 'g" where
  "reset shuffle = (\<lambda>(self, rng).
     (let (cs, rng') = shuffle rng (list_times CARD_DECK (n_card_decks self))
      in (self\<lparr>cards := cs\<rparr>, rng')))"

section \<open>Round engine\<close>

text \<open>
  A strategy is a callable that may keep state of its own and may raise: it maps its
  state, the player's hand and the card it is shown to its answer (\<open>True\<close> is hit) and
  its next state. The \<open>print\<close> calls under \<open>self.logging\<close> write to standard output
  only; the values they format are computed again by \<open>determine_winner\<close>, so they
  change neither the state nor the result and are left out.
\<close>

type_synonym 's strategy = "'s \<Rightarrow> hand \<Rightarrow> card \<Rightarrow> error + (bool \<times> 's)"

text \<open>The initial deal: two cards to the player, then two to the dealer.\<close>

definition deal_hands :: "game \<Rightarrow> error + (hand \<times> hand \<times> game)" where
  "deal_hands self =
     (case deal_card self of Inl e \<Rightarrow> Inl e | Inr (p1, g1) \<Rightarrow>
     (case deal_card g1 of Inl e \<Rightarrow> Inl e | Inr (p2, g2) \<Rightarrow>
     (case deal_card g2 of Inl e \<Rightarrow> Inl e | Inr (d1, g3) \<Rightarrow>
     (case deal_card g3 of Inl e \<Rightarrow> Inl e | Inr (d2, g4) \<Rightarrow>
        Inr ([p1, p2], [d1, d2], g4)))))"

text \<open>
  \<open>while player_strategy(player_hand, dealer_hand[0]): player_hand.append(self.deal_card())\<close>
\<close>

function player_turn ::
  "'s strategy \<Rightarrow> hand \<Rightarrow> game \<times> hand \<times> 's \<Rightarrow> error + (game \<times> hand \<times> 's)" where
  "player_turn player_strategy dealer_hand (self, player_hand, s) =
     (case dealer_hand of
        [] \<Rightarrow> Inl IndexError
      | upcard # _ \<Rightarrow>
          (case player_strategy s player_hand upcard of
             Inl e \<Rightarrow> Inl e
           | Inr (hit, s') \<Rightarrow>
               if hit then
                 (case deal_card self of
                    Inl e \<Rightarrow> Inl e
                  | Inr (c, self') \<Rightarrow>
                      player_turn player_strategy dealer_hand (self', player_hand @ [c], s'))
               else Inr (self, player_hand, s')))"
  by pat_completeness auto
termination
  by (relation "measure (\<lambda>(st, dh, self, ph, s). length (cards self))")
     (auto simp: deal_card_def split: if_splits)

declare player_turn.simps [simp del]

text \<open>
  \<open>while self.calculate_hand_value(dealer_hand) < 17: dealer_hand.append(self.deal_card())\<close>
\<close>

function dealer_turn :: "game \<times> hand \<Rightarrow> error + (game \<times> hand)" where
  "dealer_turn (self, dealer_hand) =
     (case calculate_hand_value dealer_hand of
        Inl e \<Rightarrow> Inl e
      | Inr v \<Rightarrow>
          if v < 17 then
            (case deal_card self of
               Inl e \<Rightarrow> Inl e
             | Inr (c, self') \<Rightarrow> dealer_turn (self', dealer_hand @ [c]))
          else Inr (self, dealer_hand))"
  by pat_completeness auto
termination
  by (relation "measure (\<lambda>(self, dh). length (cards self))")
     (auto simp: deal_card_def split: if_splits)

declare dealer_turn.simps [simp del]

text \<open>\<open>BlackjackGame.play\<close>\<close>

definition play :: "'s strategy \<Rightarrow> game \<times> 's \<Rightarrow> error + (string \<times> game \<times> 's)" where
  "play player_strategy = (\<lambda>(self, s).
     (case deal_hands self of
        Inl e \<Rightarrow> Inl e
      | Inr (player_hand, dealer_hand, g1) \<Rightarrow>
     (case player_turn player_strategy dealer_hand (g1, player_hand, s) of
        Inl e \<Rightarrow> Inl e
      | Inr (g2, player_hand', s') \<Rightarrow>
     (case dealer_turn (g2, dealer_hand) of
        Inl e \<Rightarrow> Inl e
      | Inr (g3, dealer_hand') \<Rightarrow>
     (case determine_winner player_hand' dealer_hand' of
        Inl e \<Rightarrow> Inl e
      | Inr result \<Rightarrow> Inr (result, g3, s'))))))"

section \<open>Experiment driver\<close>

text \<open>
  The statistics are a Python dictionary, kept as an association list in insertion
  order. \<open>results[result] += 1\<close> reads the key (a \<open>KeyError\<close> when it is missing) and
  stores the incremented count.
\<close>

type_synonym stats = "(string \<times> int) list"

definition increment :: "stats \<Rightarrow> string \<Rightarrow> error + stats" where
  "increment results k =
     (case map_of results k of
        None \<Rightarrow> Inl KeyError
      | Some n \<Rightarrow> Inr (AList.update k (n + 1) results))"

text \<open>The body of \<open>for _ in range(n_runs)\<close>, run for the remaining number of rounds.\<close>

fun experiment_loop ::
  "'g shuffler \<Rightarrow> 's strategy \<Rightarrow> nat \<Rightarrow> stats \<times> game \<times> 'g \<times> 's
     \<Rightarrow> error + (stats \<times> game \<times> 'g \<times> 's)" where
  "experiment_loop shuffle player_strategy 0 st = Inr st"
| "experiment_loop shuffle player_strategy (Suc k) (results, self, rng, s) =
     (case play player_strategy (self, s) of
        Inl e \<Rightarrow> Inl e
      | Inr (result, self', s') \<Rightarrow>
          (case increment results result of
             Inl e \<Rightarrow> Inl e
           | Inr results' \<Rightarrow>
               (case reset shuffle (self', rng) of
                  (self'', rng') \<Rightarrow>
                    experiment_loop shuffle player_strategy k (results', self'', rng', s'))))"

text \<open>
  \<open>BlackjackGame.experiment\<close> (the name is an Isabelle keyword, hence the prefix):
  \<open>range(n_runs)\<close> is empty when \<open>n_runs \<le> 0\<close>.
\<close>

definition game_experiment ::
  "'g shuffler \<Rightarrow> 's strategy \<Rightarrow> int \<Rightarrow> game \<times> 'g \<times> 's
     \<Rightarrow> error + (stats \<times> game \<times> 'g \<times> 's)" where
  "game_experiment shuffle player_strategy n_runs = (\<lambda>(self, rng, s).
     experiment_loop shuffle player_strategy (nat n_runs)
       ([(''win'', 0), (''lose'', 0), (''draw'', 0)], self, rng, s))"

section \<open>The strategy object\<close>

text \<open>
  \<open>PlayerStrategy\<close>: \<open>train_strategy\<close> returns \<open>basic\<close>, and calling the object calls
  the stored strategy and leaves the object as it is.
\<close>

record player_strategy =
  ps_n_card_decks :: int
  ps_strategy :: "hand \<Rightarrow> card \<Rightarrow> error + bool"

definition train_strategy :: "int \<Rightarrow> hand \<Rightarrow> card \<Rightarrow> error + bool" where
  "train_strategy n = basic"

definition PlayerStrategy_init :: "int \<Rightarrow> player_strategy" where
  "PlayerStrategy_init n = \<lparr>ps_n_card_decks = n, ps_strategy = train_strategy n\<rparr>"

definition PlayerStrategy_call :: "player_strategy strategy" where
  "PlayerStrategy_call self player_hand dealer_upcard =
     (case ps_strategy self player_hand dealer_upcard of
        Inl e \<Rightarrow> Inl e
      | Inr hit \<Rightarrow> Inr (hit, self))"

section \<open>The specification's notions\<close>

text \<open>
  The specification's reading of a hand value, written from its words: every card has
  the values it may count as (an Ace 1 or 11, a face card 10, a numeric rank its number),
  a total of the hand picks one value for each card, and the best total is the largest
  total that does not exceed 21, or the smallest total when every total exceeds 21.
\<close>

definition spec_card_values :: "card \<Rightarrow> int list" where
  "spec_card_values c =
     (if c = ''A'' then [1, 11]
      else if c \<in> set [''J'', ''Q'', ''K''] then [10]
      else (case map_of [(''2'', 2), (''3'', 3), (''4'', 4), (''5'', 5), (''6'', 6),
                         (''7'', 7), (''8'', 8), (''9'', 9), (''10'', 10)] c of
              Some n \<Rightarrow> [n] | None \<Rightarrow> []))"

fun spec_totals :: "hand \<Rightarrow> int list" where
  "spec_totals [] = [0]"
| "spec_totals (c # cs) = concat (map (\<lambda>v. map (\<lambda>t. v + t) (spec_totals cs)) (spec_card_values c))"

definition spec_best_total :: "hand \<Rightarrow> int" where
  "spec_best_total hand =
     (let ts = spec_totals hand; ok = filter (\<lambda>t. t \<le> 21) ts
      in if ok \<noteq> [] then Max (set ok) else Min (set ts))"

text \<open>
  The specification's outcome rules on two hand values, in their order.
\<close>

definition spec_resolve :: "int \<Rightarrow> int \<Rightarrow> string" where
  "spec_resolve player_value dealer_value =
     (if player_value > 21 then ''lose''
      else if dealer_value > 21 then ''win''
      else if player_value > dealer_value then ''win''
      else if player_value < dealer_value then ''lose''
      else ''draw'')"

text \<open>Auxiliary notions of the proofs: the total with every Ace at 1, and the number of Aces.\<close>

definition hard_total :: "hand \<Rightarrow> int" where
  "hard_total hand = sum_list (map (\<lambda>c. hd (spec_card_values c)) hand)"

definition n_aces :: "hand \<Rightarrow> nat" where
  "n_aces hand = length (filter (\<lambda>c. c = ''A'') hand)"

section \<open>Fixtures for concrete runs\<close>

text \<open>A game object with a given deck, and a strategy that always asks for a card.\<close>

definition small_game :: "card list \<Rightarrow> game" where
  "small_game cs = \<lparr>n_card_decks = 1, logging = False, cards = cs\<rparr>"

definition always_hit :: "unit strategy" where
  "always_hit s player_hand dealer_upcard = Inr (True, s)"

text \<open>
  A strategy that also keeps the list of the arguments it was called with, in order.
\<close>

definition recording :: "'s strategy \<Rightarrow> ('s \<times> (hand \<times> card) list) strategy" where
  "recording player_strategy = (\<lambda>(s, calls) player_hand dealer_upcard.
     (case player_strategy s player_hand dealer_upcard of
        Inl e \<Rightarrow> Inl e
      | Inr (hit, s') \<Rightarrow> Inr (hit, (s', calls @ [(player_hand, dealer_upcard)]))))"

text \<open>
  A deterministic stand-in for \<open>random.shuffle\<close>: it cuts the deck at the position
  given by the state of the random source, a number that it then increases.
\<close>

definition cut_shuffle :: "nat shuffler" where
  "cut_shuffle k xs = (rotate k xs, Suc k)"

text \<open>A plain function such as \<open>basic\<close> used as the strategy: it keeps no state.\<close>

definition plain :: "(hand \<Rightarrow> card \<Rightarrow> error + bool) \<Rightarrow> unit strategy" where
  "plain f s player_hand dealer_upcard =
     (case f player_hand dealer_upcard of Inl e \<Rightarrow> Inl e | Inr hit \<Rightarrow> Inr (hit, s))"

text \<open>
  \<open>draws g drawn g'\<close>: successive successful calls of \<open>deal_card\<close> lead from \<open>g\<close> to
  \<open>g'\<close> and return the cards \<open>drawn\<close>, in this order.
\<close>

inductive draws :: "game \<Rightarrow> card list \<Rightarrow> game \<Rightarrow> bool" where
  draws_none: "draws g [] g"
| draws_more: "draws g drawn g1 \<Longrightarrow> deal_card g1 = Inr (c, g2) \<Longrightarrow> draws g (drawn @ [c]) g2"

section \<open>Hand values\<close>

lemma py_int_rank:
  "c \<in> set RANKS \<Longrightarrow> c \<noteq> ''A'' \<Longrightarrow> c \<notin> set [''J'', ''Q'', ''K''] \<Longrightarrow>
   py_int c = Inr (hd (spec_card_values c))"
  by (auto simp: RANKS_def py_int_def strip_def is_space_def parse_unsigned_def is_digit_def
      digit_val_def spec_card_values_def)

lemma sum_cards_ranks:
  "set hand \<subseteq> set RANKS \<Longrightarrow>
   sum_cards hand (v, a) = Inr (v + hard_total hand + 10 * int (n_aces hand), a + int (n_aces hand))"
proof (induction hand arbitrary: v a)
  case Nil
  then show ?case by (simp add: hard_total_def n_aces_def)
next
  case (Cons c cs)
  then have c: "c \<in> set RANKS" and cs: "set cs \<subseteq> set RANKS" by auto
  consider "c \<in> set [''J'', ''Q'', ''K'']" | "c = ''A''"
    | "c \<noteq> ''A''" "c \<notin> set [''J'', ''Q'', ''K'']" by blast
  then show ?case
  proof cases
    case 1
    then show ?thesis using Cons.IH[OF cs]
      by (auto simp: hard_total_def n_aces_def spec_card_values_def)
  next
    case 2
    then show ?thesis using Cons.IH[OF cs]
      by (simp add: hard_total_def n_aces_def spec_card_values_def)
  next
    case 3
    then show ?thesis using Cons.IH[OF cs] py_int_rank[OF c]
      by (simp add: hard_total_def n_aces_def)
  qed
qed

lemma adjust_aces_spec:
  "0 \<le> a \<Longrightarrow>
   (\<exists>j. 0 \<le> j \<and> j \<le> a \<and> adjust_aces v a = v - 10 * j) \<and>
   (adjust_aces v a > 21 \<longrightarrow> adjust_aces v a = v - 10 * a) \<and>
   (\<forall>j. 0 \<le> j \<and> j \<le> a \<and> v - 10 * j \<le> 21 \<longrightarrow> v - 10 * j \<le> adjust_aces v a)"
proof (induction v a rule: adjust_aces.induct)
  case (1 v a)
  show ?case
  proof (cases "v > 21 \<and> a \<noteq> 0")
    case True
    with "1.prems" have a1: "0 \<le> a - 1" by simp
    have eq: "adjust_aces v a = adjust_aces (v - 10) (a - 1)"
      using True by (subst adjust_aces.simps) simp
    note ih = "1.IH"[OF True a1]
    from ih obtain j where j: "0 \<le> j" "j \<le> a - 1" "adjust_aces (v - 10) (a - 1) = v - 10 - 10 * j"
      by blast
    have p1: "\<exists>j. 0 \<le> j \<and> j \<le> a \<and> adjust_aces v a = v - 10 * j"
      using j eq by (intro exI[of _ "j + 1"]) simp
    have p2: "adjust_aces v a > 21 \<longrightarrow> adjust_aces v a = v - 10 * a"
      using ih eq by (simp add: algebra_simps)
    have p3: "\<forall>j. 0 \<le> j \<and> j \<le> a \<and> v - 10 * j \<le> 21 \<longrightarrow> v - 10 * j \<le> adjust_aces v a"
    proof (intro allI impI)
      fix k assume k: "0 \<le> k \<and> k \<le> a \<and> v - 10 * k \<le> 21"
      with True have "k \<ge> 1" by (cases "k = 0") auto
      with k have "0 \<le> k - 1 \<and> k - 1 \<le> a - 1 \<and> v - 10 - 10 * (k - 1) \<le> 21" by simp
      with ih have "v - 10 - 10 * (k - 1) \<le> adjust_aces (v - 10) (a - 1)" by blast
      then show "v - 10 * k \<le> adjust_aces v a" using eq by simp
    qed
    from p1 p2 p3 show ?thesis by blast
  next
    case False
    then have eq: "adjust_aces v a = v"
      by (subst adjust_aces.simps) (simp only: if_False)
    show ?thesis unfolding eq using False "1.prems"
      by (auto intro: exI[of _ 0])
  qed
qed

lemma image_add_iff: "(t::int) \<in> (\<lambda>x. n + x) ` S \<longleftrightarrow> t - n \<in> S"
  by force

lemma in_spec_totals:
  "set hand \<subseteq> set RANKS \<Longrightarrow>
   t \<in> set (spec_totals hand) \<longleftrightarrow> (\<exists>j \<le> n_aces hand. t = hard_total hand + 10 * int j)"
proof (induction hand arbitrary: t)
  case Nil
  then show ?case by (simp add: hard_total_def n_aces_def)
next
  case (Cons c cs)
  then have c: "c \<in> set RANKS" and cs: "set cs \<subseteq> set RANKS" by auto
  note ih = Cons.IH[OF cs]
  show ?case
  proof (cases "c = ''A''")
    case True
    have h: "hard_total (c # cs) = 1 + hard_total cs" and n: "n_aces (c # cs) = Suc (n_aces cs)"
      using True by (simp_all add: hard_total_def n_aces_def spec_card_values_def)
    have "t \<in> set (spec_totals (c # cs)) \<longleftrightarrow>
          t - 1 \<in> set (spec_totals cs) \<or> t - 11 \<in> set (spec_totals cs)"
      using True by (simp add: spec_card_values_def image_add_iff)
    also have "\<dots> \<longleftrightarrow> (\<exists>j \<le> n_aces cs. t - 1 = hard_total cs + 10 * int j) \<or>
                     (\<exists>j \<le> n_aces cs. t - 11 = hard_total cs + 10 * int j)"
      by (simp only: ih)
    also have "\<dots> \<longleftrightarrow> (\<exists>j \<le> Suc (n_aces cs). t = 1 + hard_total cs + 10 * int j)"
    proof
      assume "(\<exists>j \<le> n_aces cs. t - 1 = hard_total cs + 10 * int j) \<or>
              (\<exists>j \<le> n_aces cs. t - 11 = hard_total cs + 10 * int j)"
      then show "\<exists>j \<le> Suc (n_aces cs). t = 1 + hard_total cs + 10 * int j"
      proof
        assume "\<exists>j \<le> n_aces cs. t - 1 = hard_total cs + 10 * int j"
        then obtain j where "j \<le> n_aces cs" "t - 1 = hard_total cs + 10 * int j" by blast
        then show ?thesis by (intro exI[of _ j]) simp
      next
        assume "\<exists>j \<le> n_aces cs. t - 11 = hard_total cs + 10 * int j"
        then obtain j where "j \<le> n_aces cs" "t - 11 = hard_total cs + 10 * int j" by blast
        then show ?thesis by (intro exI[of _ "Suc j"]) simp
      qed
    next
      assume "\<exists>j \<le> Suc (n_aces cs). t = 1 + hard_total cs + 10 * int j"
      then obtain j where j: "j \<le> Suc (n_aces cs)" "t = 1 + hard_total cs + 10 * int j" by blast
      show "(\<exists>j \<le> n_aces cs. t - 1 = hard_total cs + 10 * int j) \<or>
            (\<exists>j \<le> n_aces cs. t - 11 = hard_total cs + 10 * int j)"
      proof (cases j)
        case 0
        with j have "t - 1 = hard_total cs + 10 * int 0" by simp
        then show ?thesis by blast
      next
        case (Suc k)
        with j have "k \<le> n_aces cs" "t - 11 = hard_total cs + 10 * int k" by simp_all
        then show ?thesis by blast
      qed
    qed
    finally show ?thesis by (simp only: h n)
  next
    case False
    with c obtain n where n: "spec_card_values c = [n]"
      by (auto simp: RANKS_def spec_card_values_def)
    have h: "hard_total (c # cs) = n + hard_total cs" and na: "n_aces (c # cs) = n_aces cs"
      using False n by (simp_all add: hard_total_def n_aces_def)
    have "t \<in> set (spec_totals (c # cs)) \<longleftrightarrow> t - n \<in> set (spec_totals cs)"
      using n by (simp add: image_add_iff)
    also have "\<dots> \<longleftrightarrow> (\<exists>j \<le> n_aces cs. t - n = hard_total cs + 10 * int j)"
      by (simp only: ih)
    also have "\<dots> \<longleftrightarrow> (\<exists>j \<le> n_aces cs. t = n + hard_total cs + 10 * int j)"
      by (auto simp: algebra_simps)
    finally show ?thesis by (simp only: h na)
  qed
qed

lemma calculate_hand_value_best:
  assumes "set hand \<subseteq> set RANKS"
  shows "calculate_hand_value hand = Inr (spec_best_total hand)"
proof -
  define h where "h = hard_total hand"
  define k where "k = int (n_aces hand)"
  define v where "v = h + 10 * k"
  define r where "r = adjust_aces v k"
  have k0: "0 \<le> k" by (simp add: k_def)
  have "sum_cards hand (0, 0) = Inr (v, k)"
    using sum_cards_ranks[OF assms, of 0 0] by (simp add: v_def h_def k_def)
  then have chv: "calculate_hand_value hand = Inr r"
    by (simp add: calculate_hand_value_def r_def)
  have memD: "\<exists>j. 0 \<le> j \<and> j \<le> k \<and> t = v - 10 * j" if "t \<in> set (spec_totals hand)" for t
  proof -
    from that obtain j where j: "j \<le> n_aces hand" "t = h + 10 * int j"
      unfolding in_spec_totals[OF assms] h_def by blast
    have "0 \<le> k - int j \<and> k - int j \<le> k \<and> t = v - 10 * (k - int j)"
      using j by (simp add: v_def k_def)
    then show ?thesis ..
  qed
  have memI: "v - 10 * j \<in> set (spec_totals hand)" if "0 \<le> j" "j \<le> k" for j
  proof -
    have "nat (k - j) \<le> n_aces hand" "v - 10 * j = h + 10 * int (nat (k - j))"
      using that by (simp_all add: v_def k_def)
    then show ?thesis
      unfolding in_spec_totals[OF assms] h_def by blast
  qed
  note sp = adjust_aces_spec[OF k0, of v, folded r_def]
  from sp obtain j0 where j0: "0 \<le> j0" "j0 \<le> k" "r = v - 10 * j0" by blast
  from sp have sp2: "r > 21 \<Longrightarrow> r = v - 10 * k" by simp
  from sp have sp3: "\<And>j. 0 \<le> j \<Longrightarrow> j \<le> k \<Longrightarrow> v - 10 * j \<le> 21 \<Longrightarrow> v - 10 * j \<le> r"
    by simp
  have r_in: "r \<in> set (spec_totals hand)" using memI[OF j0(1,2)] j0(3) by simp
  have upper: "y \<le> r" if "y \<in> set (spec_totals hand)" "y \<le> 21" for y
  proof -
    from memD[OF that(1)] obtain j where j: "0 \<le> j" "j \<le> k" "y = v - 10 * j" by blast
    show ?thesis using sp3[OF j(1,2)] that(2) j(3) by simp
  qed
  let ?ok = "filter (\<lambda>t. t \<le> 21) (spec_totals hand)"
  show ?thesis
  proof (cases "r \<le> 21")
    case True
    have r_ok: "r \<in> set ?ok" using r_in True by simp
    then have ne: "?ok \<noteq> []" by (metis empty_iff empty_set)
    have "Max (set ?ok) = r"
    proof (rule Max_eqI)
      show "finite (set ?ok)" by simp
      show "r \<in> set ?ok" by (rule r_ok)
      fix y assume "y \<in> set ?ok"
      then have "y \<in> set (spec_totals hand)" "y \<le> 21" by simp_all
      then show "y \<le> r" by (rule upper)
    qed
    then show ?thesis using ne chv by (simp add: spec_best_total_def Let_def)
  next
    case False
    then have rmin: "r = v - 10 * k" using sp2 by simp
    have emp: "?ok = []"
    proof (rule ccontr)
      assume "?ok \<noteq> []"
      then obtain y where "y \<in> set ?ok" by (meson last_in_set)
      then have y: "y \<in> set (spec_totals hand)" "y \<le> 21" by simp_all
      from memD[OF y(1)] obtain j where "0 \<le> j" "j \<le> k" "y = v - 10 * j" by blast
      then have "r \<le> y" using rmin by simp
      with y(2) False show False by simp
    qed
    have "Min (set (spec_totals hand)) = r"
    proof (rule Min_eqI)
      show "finite (set (spec_totals hand))" by simp
      show "r \<in> set (spec_totals hand)" by (rule r_in)
      fix y assume "y \<in> set (spec_totals hand)"
      from memD[OF this] obtain j where "0 \<le> j" "j \<le> k" "y = v - 10 * j" by blast
      then show "r \<le> y" using rmin by simp
    qed
    then show ?thesis using emp chv by (simp add: spec_best_total_def Let_def)
  qed
qed

text \<open>
  C1. For every hand over the thirteen ranks \<open>calculate_hand_value\<close> returns the largest
  total not above 21 that some choice of 1 or 11 for each Ace gives, and the smallest
  total when every choice is above 21. Two, three and eleven Aces are worth 12, 13 and 21.
\<close>

theorem calculate_hand_value_best_total:
  assumes "set hand \<subseteq> set RANKS"
  shows "calculate_hand_value hand = Inr (spec_best_total hand) \<and>
         calculate_hand_value [''A'', ''A''] = Inr 12 \<and>
         calculate_hand_value [''A'', ''A'', ''A''] = Inr 13 \<and>
         calculate_hand_value (replicate 11 ''A'') = Inr 21"
proof -
  have "calculate_hand_value [''A'', ''A''] = Inr 12" by code_simp
  moreover have "calculate_hand_value [''A'', ''A'', ''A''] = Inr 13" by code_simp
  moreover have "calculate_hand_value (replicate 11 ''A'') = Inr 21" by code_simp
  ultimately show ?thesis using calculate_hand_value_best[OF assms] by simp
qed

theorem calculate_hand_value_best_total_witness:
  "set [''A'', ''9'', ''A'', ''K''] \<subseteq> set RANKS \<and>
   calculate_hand_value [''A'', ''9'', ''A'', ''K''] = Inr 21 \<and>
   spec_best_total [''A'', ''9'', ''A'', ''K''] = 21 \<and>
   set [''K'', ''Q'', ''A'', ''5''] \<subseteq> set RANKS \<and>
   calculate_hand_value [''K'', ''Q'', ''A'', ''5''] = Inr 26 \<and>
   spec_best_total [''K'', ''Q'', ''A'', ''5''] = 26"
proof -
  have h1: "set [''A'', ''9'', ''A'', ''K''] \<subseteq> set RANKS" by (simp add: RANKS_def)
  have h2: "set [''K'', ''Q'', ''A'', ''5''] \<subseteq> set RANKS" by (simp add: RANKS_def)
  have v1: "spec_best_total [''A'', ''9'', ''A'', ''K''] = 21" by code_simp
  have v2: "spec_best_total [''K'', ''Q'', ''A'', ''5''] = 26" by code_simp
  show ?thesis
    using h1 h2 v1 v2 calculate_hand_value_best_total[OF h1]
      calculate_hand_value_best_total[OF h2]
    by simp
qed

section \<open>The two copies of the hand evaluator\<close>

lemma strategies_sum_cards_eq: "strategies_sum_cards hand st = sum_cards hand st"
  by (induction hand st rule: sum_cards.induct) (simp_all split: sum.splits)

lemma strategies_adjust_aces_eq: "strategies_adjust_aces v a = adjust_aces v a"
proof (induction v a rule: adjust_aces.induct)
  case (1 v a)
  show ?case
    by (subst strategies_adjust_aces.simps, subst adjust_aces.simps) (simp add: "1.IH")
qed

lemma strategies_adjust_aces_fun: "strategies_adjust_aces = adjust_aces"
  by (intro ext) (rule strategies_adjust_aces_eq)

lemma strategies_sum_cards_fun: "strategies_sum_cards = sum_cards"
  by (intro ext) (rule strategies_sum_cards_eq)

text \<open>
  C10. The module-level \<open>calculate_hand_value\<close> of blackjack_strategies.py and the
  method of \<open>BlackjackGame\<close> return the same result on every hand, errors included, so
  \<open>basic\<close> asks for a card exactly when the engine's own value of the hand is below 17.
\<close>

theorem hand_evaluators_agree:
  "strategies_calculate_hand_value hand = calculate_hand_value hand \<and>
   basic hand dealer_upcard =
     (case calculate_hand_value hand of Inl e \<Rightarrow> Inl e | Inr v \<Rightarrow> Inr (v < 17))"
  unfolding basic_def strategies_calculate_hand_value_def calculate_hand_value_def
    strategies_sum_cards_fun strategies_adjust_aces_fun
  by simp

section \<open>Outcomes\<close>

text \<open>
  C2. \<open>determine_winner\<close> gives the outcome of the five ordered rules on the two hand
  values (and the error of the first hand that has none); 20 against 19 wins, 22 against
  19 loses, 18 against 22 wins and 17 against 17 draws.
\<close>

theorem determine_winner_rules:
  "determine_winner player_hand dealer_hand =
     (case calculate_hand_value player_hand of
        Inl e \<Rightarrow> Inl e
      | Inr pv \<Rightarrow>
          (case calculate_hand_value dealer_hand of
             Inl e \<Rightarrow> Inl e
           | Inr dv \<Rightarrow> Inr (spec_resolve pv dv))) \<and>
   calculate_hand_value [''K'', ''Q''] = Inr 20 \<and>
   calculate_hand_value [''10'', ''9''] = Inr 19 \<and>
   determine_winner [''K'', ''Q''] [''10'', ''9''] = Inr ''win'' \<and>
   calculate_hand_value [''K'', ''Q'', ''2''] = Inr 22 \<and>
   determine_winner [''K'', ''Q'', ''2''] [''10'', ''9''] = Inr ''lose'' \<and>
   calculate_hand_value [''10'', ''8''] = Inr 18 \<and>
   determine_winner [''10'', ''8''] [''K'', ''Q'', ''2''] = Inr ''win'' \<and>
   calculate_hand_value [''A'', ''6''] = Inr 17 \<and>
   calculate_hand_value [''10'', ''7''] = Inr 17 \<and>
   determine_winner [''A'', ''6''] [''10'', ''7''] = Inr ''draw''"
proof -
  have gen: "determine_winner player_hand dealer_hand =
     (case calculate_hand_value player_hand of
        Inl e \<Rightarrow> Inl e
      | Inr pv \<Rightarrow>
          (case calculate_hand_value dealer_hand of
             Inl e \<Rightarrow> Inl e
           | Inr dv \<Rightarrow> Inr (spec_resolve pv dv)))"
    by (auto simp: determine_winner_def spec_resolve_def split: sum.splits)
  have v: "calculate_hand_value [''K'', ''Q''] = Inr 20"
    "calculate_hand_value [''10'', ''9''] = Inr 19"
    "calculate_hand_value [''K'', ''Q'', ''2''] = Inr 22"
    "calculate_hand_value [''10'', ''8''] = Inr 18"
    "calculate_hand_value [''A'', ''6''] = Inr 17"
    "calculate_hand_value [''10'', ''7''] = Inr 17"
    by code_simp+
  have w: "determine_winner [''K'', ''Q''] [''10'', ''9''] = Inr ''win''"
    "determine_winner [''K'', ''Q'', ''2''] [''10'', ''9''] = Inr ''lose''"
    "determine_winner [''10'', ''8''] [''K'', ''Q'', ''2''] = Inr ''win''"
    "determine_winner [''A'', ''6''] [''10'', ''7''] = Inr ''draw''"
    by (simp_all add: determine_winner_def v)
  show ?thesis using gen v w by simp
qed

section \<open>Dealing\<close>

lemma deal_card_snoc:
  "cards self = deck @ [c] \<Longrightarrow> deal_card self = Inr (c, self\<lparr>cards := deck\<rparr>)"
  by (simp add: deal_card_def)

lemma deal_card_empty: "cards self = [] \<Longrightarrow> deal_card self = Inl IndexError"
  by (simp add: deal_card_def)

lemma deal_card_Inr:
  "deal_card self = Inr (c, self') \<Longrightarrow>
   cards self = cards self' @ [c] \<and> self' = self\<lparr>cards := cards self'\<rparr>"
  by (auto simp: deal_card_def split: if_splits)

lemma deal_hands_four:
  "cards self = rest @ [d2, d1, p2, p1] \<Longrightarrow>
   deal_hands self = Inr ([p1, p2], [d1, d2], self\<lparr>cards := rest\<rparr>)"
proof -
  assume a: "cards self = rest @ [d2, d1, p2, p1]"
  have 1: "deal_card self = Inr (p1, self\<lparr>cards := rest @ [d2, d1, p2]\<rparr>)"
    using deal_card_snoc[of self "rest @ [d2, d1, p2]" p1] a by simp
  have 2: "deal_card (self\<lparr>cards := rest @ [d2, d1, p2]\<rparr>) = Inr (p2, self\<lparr>cards := rest @ [d2, d1]\<rparr>)"
    using deal_card_snoc[of "self\<lparr>cards := rest @ [d2, d1, p2]\<rparr>" "rest @ [d2, d1]" p2] by simp
  have 3: "deal_card (self\<lparr>cards := rest @ [d2, d1]\<rparr>) = Inr (d1, self\<lparr>cards := rest @ [d2]\<rparr>)"
    using deal_card_snoc[of "self\<lparr>cards := rest @ [d2, d1]\<rparr>" "rest @ [d2]" d1] by simp
  have 4: "deal_card (self\<lparr>cards := rest @ [d2]\<rparr>) = Inr (d2, self\<lparr>cards := rest\<rparr>)"
    using deal_card_snoc[of "self\<lparr>cards := rest @ [d2]\<rparr>" rest d2] by simp
  show ?thesis by (simp add: deal_hands_def 1 2 3 4)
qed

text \<open>
  C7, as the code has it. \<open>deal_card\<close> removes and returns the last card of the deck,
  so a deck is consumed from its end (the initial deal gives the last two cards to the
  player and the two before them to the dealer). It has no guard: on an empty deck the
  bare \<open>self.cards.pop()\<close> raises the built-in \<open>IndexError\<close>, the generic error of
  list indexing, and no card is returned. The code defines no error of its own for an
  empty deck.
\<close>

theorem deal_card_end_of_deck:
  "(cards self = [] \<longrightarrow> deal_card self = Inl IndexError) \<and>
   (cards self = deck @ [c] \<longrightarrow> deal_card self = Inr (c, self\<lparr>cards := deck\<rparr>)) \<and>
   (deal_card self = Inr (c', self') \<longrightarrow>
      cards self = cards self' @ [c'] \<and> self' = self\<lparr>cards := cards self'\<rparr>) \<and>
   (cards self = rest @ [d2, d1, p2, p1] \<longrightarrow>
      deal_hands self = Inr ([p1, p2], [d1, d2], self\<lparr>cards := rest\<rparr>))"
  using deal_card_snoc deal_card_empty deal_card_Inr deal_hands_four by blast

theorem deal_card_end_of_deck_witness:
  "cards (small_game []) = [] \<and>
   deal_card (small_game []) = Inl IndexError \<and>
   cards (small_game [''5'', ''K'', ''A'', ''9'', ''2'']) = [''5'', ''K'', ''A'', ''9''] @ [''2''] \<and>
   deal_card (small_game [''5'', ''K'', ''A'', ''9'', ''2'']) =
     Inr (''2'', small_game [''5'', ''K'', ''A'', ''9'']) \<and>
   cards (small_game [''5'', ''K'', ''A'', ''9'', ''2'']) = [''5''] @ [''K'', ''A'', ''9'', ''2''] \<and>
   deal_hands (small_game [''5'', ''K'', ''A'', ''9'', ''2'']) =
     Inr ([''2'', ''9''], [''A'', ''K''], small_game [''5''])"
proof -
  let ?g = "small_game [''5'', ''K'', ''A'', ''9'', ''2'']"
  have e: "cards (small_game []) = []" by (simp add: small_game_def)
  have c1: "cards ?g = [''5'', ''K'', ''A'', ''9''] @ [''2'']" by (simp add: small_game_def)
  have c2: "cards ?g = [''5''] @ [''K'', ''A'', ''9'', ''2'']" by (simp add: small_game_def)
  have u1: "?g\<lparr>cards := [''5'', ''K'', ''A'', ''9'']\<rparr> = small_game [''5'', ''K'', ''A'', ''9'']"
    and u2: "?g\<lparr>cards := [''5'']\<rparr> = small_game [''5'']"
    by (simp_all add: small_game_def)
  have d: "deal_card ?g = Inr (''2'', small_game [''5'', ''K'', ''A'', ''9''])"
    using deal_card_end_of_deck[of ?g "[''5'', ''K'', ''A'', ''9'']" "''2''" "''2''"
        "small_game [''5'', ''K'', ''A'', ''9'']" "[''5'']" "''K''" "''A''" "''9''" "''2''"] c1 u1
    by simp
  have emp: "deal_card (small_game []) = Inl IndexError"
    using deal_card_end_of_deck[of "small_game []" "[]" "''2''" "''2''" ?g "[]" "''2''" "''2''" "''2''" "''2''"] e
    by simp
  have four: "deal_hands ?g = Inr ([''2'', ''9''], [''A'', ''K''], small_game [''5''])"
    using deal_card_end_of_deck[of ?g "[''5'', ''K'', ''A'', ''9'']" "''2''" "''2''"
        "small_game [''5'', ''K'', ''A'', ''9'']" "[''5'']" "''K''" "''A''" "''9''" "''2''"] c2 u2
    by simp
  show ?thesis
    using e c1 c2 d emp four by simp
qed

text \<open>
  C7 as stated fails: the error of an empty deck is not an error that means "the deck is
  empty". Dealing from an empty deck gives \<open>IndexError\<close>, and the very same error comes
  out of the player's turn while a card is still in the deck, when \<open>dealer_hand[0]\<close> is
  read on an empty dealer hand; a caller that catches it cannot tell the two apart.
\<close>

theorem deal_card_end_of_deck_counterexample:
  "deal_card (small_game []) = Inl IndexError \<and>
   cards (small_game [''5'']) = [''5''] \<and>
   player_turn always_hit [] (small_game [''5''], [''K'', ''Q''], ()) = Inl IndexError"
proof -
  have a: "deal_card (small_game []) = Inl IndexError"
    by (simp add: deal_card_def small_game_def)
  have b: "cards (small_game [''5'']) = [''5'']"
    by (simp add: small_game_def)
  have c: "player_turn always_hit [] (small_game [''5''], [''K'', ''Q''], ()) = Inl IndexError"
    by (subst player_turn.simps) simp
  show ?thesis by (rule conjI a b c)+
qed

section \<open>The dealer's turn\<close>

lemma dealer_turn_hit:
  "calculate_hand_value dh = Inr v \<Longrightarrow> v < 17 \<Longrightarrow> cards self = deck @ [c] \<Longrightarrow>
   dealer_turn (self, dh) = dealer_turn (self\<lparr>cards := deck\<rparr>, dh @ [c])"
  by (subst dealer_turn.simps) (simp add: deal_card_snoc)

lemma dealer_turn_empty:
  "calculate_hand_value dh = Inr v \<Longrightarrow> v < 17 \<Longrightarrow> cards self = [] \<Longrightarrow>
   dealer_turn (self, dh) = Inl IndexError"
  by (subst dealer_turn.simps) (simp add: deal_card_empty)

lemma dealer_turn_stand:
  "calculate_hand_value dh = Inr v \<Longrightarrow> 17 \<le> v \<Longrightarrow> dealer_turn (self, dh) = Inr (self, dh)"
  by (subst dealer_turn.simps) simp

lemma dealer_turn_final:
  "dealer_turn (self, dh) = Inr (self', dh') \<Longrightarrow>
   \<exists>v drawn. calculate_hand_value dh' = Inr v \<and> 17 \<le> v \<and> dh' = dh @ drawn \<and>
     cards self = cards self' @ rev drawn \<and> self' = self\<lparr>cards := cards self'\<rparr>"
proof (induction "(self, dh)" arbitrary: self dh rule: dealer_turn.induct)
  case (1 self dh)
  from "1.prems" obtain v where v: "calculate_hand_value dh = Inr v"
    by (subst (asm) dealer_turn.simps) (auto split: sum.splits)
  show ?case
  proof (cases "v < 17")
    case True
    with "1.prems" v obtain c g where d: "deal_card self = Inr (c, g)"
      and r: "dealer_turn (g, dh @ [c]) = Inr (self', dh')"
      by (subst (asm) dealer_turn.simps) (auto split: sum.splits)
    from "1.hyps"[OF v True d refl r] obtain w drawn where
      w: "calculate_hand_value dh' = Inr w" "17 \<le> w" "dh' = (dh @ [c]) @ drawn"
        "cards g = cards self' @ rev drawn" "self' = g\<lparr>cards := cards self'\<rparr>"
      by blast
    from deal_card_Inr[OF d] have g: "cards self = cards g @ [c]" "g = self\<lparr>cards := cards g\<rparr>"
      by simp_all
    have "dh' = dh @ (c # drawn)" using w(3) by simp
    moreover have "cards self = cards self' @ rev (c # drawn)" using g(1) w(4) by simp
    moreover have "self' = self\<lparr>cards := cards self'\<rparr>" using w(5) g(2)
      by (metis game.update_convs(3) game.surjective)
    ultimately show ?thesis using w(1,2) by blast
  next
    case False
    with "1.prems" v have "self' = self" "dh' = dh"
      by (subst (asm) dealer_turn.simps, simp)+
    with v False show ?thesis by (intro exI[of _ v] exI[of _ "[]"]) simp
  qed
qed

lemma soft17: "calculate_hand_value [''A'', ''6''] = Inr 17"
  by code_simp

text \<open>
  C3. In the dealer's turn a hand worth less than 17 takes the next card, a hand worth 17
  or more takes none, a turn that ends without an error ends on a hand worth at least 17
  that extends the initial hand by the cards taken from the end of the deck, and the
  dealer stands on a soft 17.
\<close>

theorem dealer_stands_on_17:
  "(calculate_hand_value dh = Inr v \<and> v < 17 \<and> cards self = deck @ [c] \<longrightarrow>
      dealer_turn (self, dh) = dealer_turn (self\<lparr>cards := deck\<rparr>, dh @ [c])) \<and>
   (calculate_hand_value dh = Inr v \<and> 17 \<le> v \<longrightarrow> dealer_turn (self, dh) = Inr (self, dh)) \<and>
   (dealer_turn (self, dh) = Inr (self', dh') \<longrightarrow>
      (\<exists>w drawn. calculate_hand_value dh' = Inr w \<and> 17 \<le> w \<and> dh' = dh @ drawn \<and>
         cards self = cards self' @ rev drawn)) \<and>
   dealer_turn (self, [''A'', ''6'']) = Inr (self, [''A'', ''6''])"
  using dealer_turn_hit[of dh v self deck c] dealer_turn_stand[of dh v self]
    dealer_turn_final[of self dh self' dh'] dealer_turn_stand[OF soft17, of self]
  by (simp; blast)

theorem dealer_stands_on_17_witness:
  "calculate_hand_value [''10'', ''2''] = Inr 12 \<and> (12::int) < 17 \<and>
   cards (small_game [''3'', ''K'', ''5'']) = [''3'', ''K''] @ [''5''] \<and>
   calculate_hand_value [''10'', ''2'', ''5''] = Inr 17 \<and> (17::int) \<le> 17 \<and>
   dealer_turn (small_game [''3'', ''K'', ''5''], [''10'', ''2'']) =
     Inr (small_game [''3'', ''K''], [''10'', ''2'', ''5'']) \<and>
   (\<exists>w drawn. calculate_hand_value [''10'', ''2'', ''5''] = Inr w \<and> 17 \<le> w \<and>
      [''10'', ''2'', ''5''] = [''10'', ''2''] @ drawn \<and>
      cards (small_game [''3'', ''K'', ''5'']) = cards (small_game [''3'', ''K'']) @ rev drawn)"
proof -
  let ?g = "small_game [''3'', ''K'', ''5'']" and ?g' = "small_game [''3'', ''K'']"
  have v1: "calculate_hand_value [''10'', ''2''] = Inr 12" by code_simp
  have v2: "calculate_hand_value [''10'', ''2'', ''5''] = Inr 17" by code_simp
  have c: "cards ?g = [''3'', ''K''] @ [''5'']" by (simp add: small_game_def)
  have u: "?g\<lparr>cards := [''3'', ''K'']\<rparr> = ?g'" by (simp add: small_game_def)
  have hit: "dealer_turn (?g, [''10'', ''2'']) = dealer_turn (?g', [''10'', ''2''] @ [''5''])"
    using dealer_stands_on_17[of "[''10'', ''2'']" 12 ?g "[''3'', ''K'']" "''5''" ?g'
        "[''10'', ''2'', ''5'']"] v1 c u
    by simp
  have stand: "dealer_turn (?g', [''10'', ''2'', ''5'']) = Inr (?g', [''10'', ''2'', ''5''])"
    using dealer_stands_on_17[of "[''10'', ''2'', ''5'']" 17 ?g' "[''3'']" "''K''" ?g'
        "[''10'', ''2'', ''5'']"] v2
    by simp
  have run: "dealer_turn (?g, [''10'', ''2'']) = Inr (?g', [''10'', ''2'', ''5''])"
    using hit stand by simp
  have fin: "\<exists>w drawn. calculate_hand_value [''10'', ''2'', ''5''] = Inr w \<and> 17 \<le> w \<and>
      [''10'', ''2'', ''5''] = [''10'', ''2''] @ drawn \<and> cards ?g = cards ?g' @ rev drawn"
    using dealer_stands_on_17[of "[''10'', ''2'']" 12 ?g "[''3'', ''K'']" "''5''" ?g'
        "[''10'', ''2'', ''5'']"] run
    by (simp only: simp_thms)
  show ?thesis using v1 v2 c run fin by simp
qed

section \<open>The player's turn\<close>

lemma player_turn_hit:
  "player_strategy s ph up = Inr (True, s') \<Longrightarrow> cards self = deck @ [c] \<Longrightarrow>
   player_turn player_strategy (up # hidden) (self, ph, s) =
   player_turn player_strategy (up # hidden) (self\<lparr>cards := deck\<rparr>, ph @ [c], s')"
  by (subst player_turn.simps) (simp add: deal_card_snoc)

lemma player_turn_hit_empty:
  "player_strategy s ph up = Inr (True, s') \<Longrightarrow> cards self = [] \<Longrightarrow>
   player_turn player_strategy (up # hidden) (self, ph, s) = Inl IndexError"
  by (subst player_turn.simps) (simp add: deal_card_empty)

lemma player_turn_stand:
  "player_strategy s ph up = Inr (False, s') \<Longrightarrow>
   player_turn player_strategy (up # hidden) (self, ph, s) = Inr (self, ph, s')"
  by (subst player_turn.simps) simp

lemma player_turn_final:
  "player_turn player_strategy (up # hidden) (self, ph, s) = Inr (self1, ph1, s1) \<Longrightarrow>
   \<exists>s0 drawn. player_strategy s0 ph1 up = Inr (False, s1) \<and> ph1 = ph @ drawn \<and>
     cards self = cards self1 @ rev drawn"
proof (induction player_strategy "up # hidden" "(self, ph, s)" arbitrary: self ph s
    rule: player_turn.induct)
  case (1 player_strategy self ph s)
  from "1.prems" obtain hit s' where a: "player_strategy s ph up = Inr (hit, s')"
    by (subst (asm) player_turn.simps) (auto split: sum.splits)
  show ?case
  proof (cases hit)
    case True
    with "1.prems" a obtain c g where d: "deal_card self = Inr (c, g)"
      and r: "player_turn player_strategy (up # hidden) (g, ph @ [c], s') = Inr (self1, ph1, s1)"
      by (subst (asm) player_turn.simps) (auto split: sum.splits)
    from "1.hyps"[OF refl a refl True d refl r] obtain s0 drawn where
      w: "player_strategy s0 ph1 up = Inr (False, s1)" "ph1 = (ph @ [c]) @ drawn"
        "cards g = cards self1 @ rev drawn"
      by blast
    from deal_card_Inr[OF d] have g: "cards self = cards g @ [c]" by simp
    have "ph1 = ph @ (c # drawn)" using w(2) by simp
    moreover have "cards self = cards self1 @ rev (c # drawn)" using g w(3) by simp
    ultimately show ?thesis using w(1) by blast
  next
    case False
    with "1.prems" a have "self1 = self" "ph1 = ph" "s1 = s'"
      by (subst (asm) player_turn.simps, simp)+
    with a False show ?thesis by (intro exI[of _ s] exI[of _ "[]"]) simp
  qed
qed

lemma always_hit_exhausts:
  "player_turn always_hit (up # hidden) (self, ph, u) = Inl IndexError"
proof (induction "cards self" arbitrary: self ph rule: rev_induct)
  case Nil
  have "always_hit u ph up = Inr (True, u)" by (simp add: always_hit_def)
  then show ?case using Nil by (intro player_turn_hit_empty) simp_all
next
  case (snoc c deck)
  have "always_hit u ph up = Inr (True, u)" by (simp add: always_hit_def)
  then have "player_turn always_hit (up # hidden) (self, ph, u) =
        player_turn always_hit (up # hidden) (self\<lparr>cards := deck\<rparr>, ph @ [c], u)"
    using snoc.hyps(2) by (intro player_turn_hit) simp_all
  also have "\<dots> = Inl IndexError"
    by (rule snoc.hyps(1)) simp
  finally show ?case .
qed

lemma player_turn_upcard_only:
  "player_turn player_strategy (up # hidden) st = player_turn player_strategy (up # hidden') st"
proof (induction player_strategy "up # hidden" st rule: player_turn.induct)
  case (1 player_strategy self ph s)
  show ?case
    apply (subst player_turn.simps)
    apply (subst (2) player_turn.simps)
    using "1.hyps"
    apply (auto split: sum.splits)
    done
qed

lemma recording_faithful:
  "player_turn player_strategy dh (self, ph, s) =
   map_sum id (\<lambda>(g, h, (s', calls')). (g, h, s'))
     (player_turn (recording player_strategy) dh (self, ph, (s, calls)))"
proof (induction player_strategy dh "(self, ph, s)" arbitrary: self ph s calls
    rule: player_turn.induct)
  case (1 player_strategy dh self ph s)
  show ?case
    apply (subst player_turn.simps)
    apply (subst (2) player_turn.simps)
    using "1.hyps"
    apply (auto simp: recording_def split: sum.splits list.splits)
    done
qed

lemma recorded_calls:
  "player_turn (recording player_strategy) (up # hidden) (self, ph, (s, calls)) =
     Inr (self1, ph1, (s1, calls1)) \<Longrightarrow>
   \<exists>drawn. ph1 = ph @ drawn \<and> calls1 = calls @ map (\<lambda>p. (ph @ p, up)) (prefixes drawn)"
proof (induction "recording player_strategy" "up # hidden" "(self, ph, (s, calls))"
    arbitrary: self ph s calls rule: player_turn.induct)
  case (1 self ph s calls)
  let ?R = "recording player_strategy"
  from "1.prems" obtain hit s' where a: "player_strategy s ph up = Inr (hit, s')"
    by (subst (asm) player_turn.simps) (auto simp: recording_def split: sum.splits)
  then have a': "?R (s, calls) ph up = Inr (hit, (s', calls @ [(ph, up)]))"
    by (simp add: recording_def)
  show ?case
  proof (cases hit)
    case True
    with "1.prems" a' obtain c g where d: "deal_card self = Inr (c, g)"
      and r: "player_turn ?R (up # hidden) (g, ph @ [c], (s', calls @ [(ph, up)])) =
              Inr (self1, ph1, (s1, calls1))"
      by (subst (asm) player_turn.simps) (auto split: sum.splits)
    from "1.hyps"[OF refl a' refl True d refl r] obtain drawn where
      w: "ph1 = (ph @ [c]) @ drawn"
         "calls1 = (calls @ [(ph, up)]) @ map (\<lambda>p. ((ph @ [c]) @ p, up)) (prefixes drawn)"
      by blast
    have "ph1 = ph @ (c # drawn)" using w(1) by simp
    moreover have "calls1 = calls @ map (\<lambda>p. (ph @ p, up)) (prefixes (c # drawn))"
      using w(2) by (simp add: comp_def)
    ultimately show ?thesis by blast
  next
    case False
    with "1.prems" a' have "ph1 = ph" "calls1 = calls @ [(ph, up)]"
      by (subst (asm) player_turn.simps, simp)+
    then show ?thesis by (intro exI[of _ "[]"]) simp
  qed
qed

text \<open>
  C5. In the player's turn every answer "hit" takes the next card of the deck, appends it
  to the player's hand and asks the strategy again, whatever the hand is worth (there is
  no bust check); the turn ends normally only on an answer "stand", given on the final
  hand; a strategy that always asks for a card draws until the deck is empty, where
  \<open>deal_card\<close> raises \<open>IndexError\<close>.
\<close>

theorem player_turn_stops_only_on_stand:
  "(player_strategy s ph up = Inr (True, s') \<and> cards self = deck @ [c] \<longrightarrow>
      player_turn player_strategy (up # hidden) (self, ph, s) =
      player_turn player_strategy (up # hidden) (self\<lparr>cards := deck\<rparr>, ph @ [c], s')) \<and>
   (player_strategy s ph up = Inr (False, s') \<longrightarrow>
      player_turn player_strategy (up # hidden) (self, ph, s) = Inr (self, ph, s')) \<and>
   (player_turn player_strategy (up # hidden) (self, ph, s) = Inr (self1, ph1, s1) \<longrightarrow>
      (\<exists>s0 drawn. player_strategy s0 ph1 up = Inr (False, s1) \<and> ph1 = ph @ drawn \<and>
         cards self = cards self1 @ rev drawn)) \<and>
   player_turn always_hit (up # hidden) (self, ph, ()) = Inl IndexError"
  using player_turn_hit[of player_strategy s ph up s' self deck c hidden]
    player_turn_stand[of player_strategy s ph up s' hidden self]
    player_turn_final[of player_strategy up hidden self ph s self1 ph1 s1]
    always_hit_exhausts[of up hidden self ph "()"]
  by blast

theorem player_turn_stops_only_on_stand_witness:
  "calculate_hand_value [''K'', ''Q'', ''5''] = Inr 25 \<and>
   always_hit () [''K'', ''Q'', ''5''] ''9'' = Inr (True, ()) \<and>
   cards (small_game [''3'', ''7'']) = [''3''] @ [''7''] \<and>
   player_turn always_hit [''9'', ''4''] (small_game [''3'', ''7''], [''K'', ''Q'', ''5''], ()) =
   player_turn always_hit [''9'', ''4''] (small_game [''3''], [''K'', ''Q'', ''5'', ''7''], ()) \<and>
   PlayerStrategy_call (PlayerStrategy_init 1) [''10'', ''7''] ''9'' =
     Inr (False, PlayerStrategy_init 1) \<and>
   player_turn PlayerStrategy_call [''9'', ''4'']
     (small_game [''3'', ''7''], [''10'', ''7''], PlayerStrategy_init 1) =
     Inr (small_game [''3'', ''7''], [''10'', ''7''], PlayerStrategy_init 1) \<and>
   (\<exists>s0 drawn. PlayerStrategy_call s0 [''10'', ''7''] ''9'' = Inr (False, PlayerStrategy_init 1) \<and>
      [''10'', ''7''] = [''10'', ''7''] @ drawn \<and>
      cards (small_game [''3'', ''7'']) = cards (small_game [''3'', ''7'']) @ rev drawn)"
proof -
  let ?g = "small_game [''3'', ''7'']" and ?ps = "PlayerStrategy_init 1"
  have v: "calculate_hand_value [''K'', ''Q'', ''5''] = Inr 25" by code_simp
  have ah: "always_hit () [''K'', ''Q'', ''5''] ''9'' = Inr (True, ())"
    by (simp add: always_hit_def)
  have c: "cards ?g = [''3''] @ [''7'']" by (simp add: small_game_def)
  have u: "?g\<lparr>cards := [''3'']\<rparr> = small_game [''3'']" by (simp add: small_game_def)
  have b: "basic [''10'', ''7''] ''9'' = Inr False" by code_simp
  have st: "PlayerStrategy_call ?ps [''10'', ''7''] ''9'' = Inr (False, ?ps)"
    by (simp add: PlayerStrategy_call_def PlayerStrategy_init_def train_strategy_def b)
  have hit: "player_turn always_hit [''9'', ''4''] (?g, [''K'', ''Q'', ''5''], ()) =
      player_turn always_hit [''9'', ''4''] (small_game [''3''], [''K'', ''Q'', ''5''] @ [''7''], ())"
    using player_turn_stops_only_on_stand[of always_hit "()" "[''K'', ''Q'', ''5'']" "''9''" "()"
        ?g "[''3'']" "''7''" "[''4'']" ?g "[''K'', ''Q'', ''5'']" "()"] ah c u
    by simp
  have stand: "player_turn PlayerStrategy_call [''9'', ''4''] (?g, [''10'', ''7''], ?ps) =
      Inr (?g, [''10'', ''7''], ?ps)"
    using player_turn_stops_only_on_stand[of PlayerStrategy_call ?ps "[''10'', ''7'']" "''9''" ?ps
        ?g "[''3'']" "''7''" "[''4'']" ?g "[''10'', ''7'']" ?ps] st
    by simp
  have fin: "\<exists>s0 drawn. PlayerStrategy_call s0 [''10'', ''7''] ''9'' = Inr (False, ?ps) \<and>
      [''10'', ''7''] = [''10'', ''7''] @ drawn \<and> cards ?g = cards ?g @ rev drawn"
    using player_turn_stops_only_on_stand[of PlayerStrategy_call ?ps "[''10'', ''7'']" "''9''" ?ps
        ?g "[''3'']" "''7''" "[''4'']" ?g "[''10'', ''7'']" ?ps] stand
    by (simp only: simp_thms)
  show ?thesis using v ah c hit st stand fin by simp
qed

text \<open>
  C6. The strategy is called with the player's hand and the dealer's first card at every
  decision: two deals that differ only in the dealer's second card give the same initial
  player hand and the same player's turn (hand, deck, strategy state or error), the turn
  depends on the dealer's hand through its first card only, and the calls a recording
  strategy has seen are the successive player hands, each with the dealer's first card.
\<close>

theorem strategy_sees_only_first_dealer_card:
  "(cards self = rest @ [d2, d1, p2, p1] \<and> self' = self\<lparr>cards := rest @ [d2', d1, p2, p1]\<rparr> \<longrightarrow>
      deal_hands self = Inr ([p1, p2], [d1, d2], self\<lparr>cards := rest\<rparr>) \<and>
      deal_hands self' = Inr ([p1, p2], [d1, d2'], self\<lparr>cards := rest\<rparr>) \<and>
      player_turn player_strategy [d1, d2] (self\<lparr>cards := rest\<rparr>, [p1, p2], s) =
      player_turn player_strategy [d1, d2'] (self\<lparr>cards := rest\<rparr>, [p1, p2], s)) \<and>
   player_turn player_strategy (up # hidden) st = player_turn player_strategy (up # hidden') st \<and>
   (player_turn (recording player_strategy) (up # hidden) (g, ph, (s, [])) =
      Inr (g1, ph1, (s1, calls1)) \<longrightarrow>
      player_turn player_strategy (up # hidden) (g, ph, s) = Inr (g1, ph1, s1) \<and>
      (\<exists>drawn. ph1 = ph @ drawn \<and> calls1 = map (\<lambda>p. (ph @ p, up)) (prefixes drawn)))"
proof -
  have a: "deal_hands self = Inr ([p1, p2], [d1, d2], self\<lparr>cards := rest\<rparr>)"
    if "cards self = rest @ [d2, d1, p2, p1]"
    using that by (rule deal_hands_four)
  have b: "deal_hands self' = Inr ([p1, p2], [d1, d2'], self\<lparr>cards := rest\<rparr>)"
    if "self' = self\<lparr>cards := rest @ [d2', d1, p2, p1]\<rparr>"
    using deal_hands_four[of self' rest d2' d1 p2 p1] that by simp
  have c: "player_turn player_strategy [d1, d2] (self\<lparr>cards := rest\<rparr>, [p1, p2], s) =
      player_turn player_strategy [d1, d2'] (self\<lparr>cards := rest\<rparr>, [p1, p2], s)"
    by (rule player_turn_upcard_only)
  have d: "player_turn player_strategy (up # hidden) st =
      player_turn player_strategy (up # hidden') st"
    by (rule player_turn_upcard_only)
  have e: "player_turn player_strategy (up # hidden) (g, ph, s) = Inr (g1, ph1, s1)"
    if "player_turn (recording player_strategy) (up # hidden) (g, ph, (s, [])) =
      Inr (g1, ph1, (s1, calls1))"
    using recording_faithful[of player_strategy "up # hidden" g ph s "[]"] that by simp
  have f: "\<exists>drawn. ph1 = ph @ drawn \<and> calls1 = map (\<lambda>p. (ph @ p, up)) (prefixes drawn)"
    if "player_turn (recording player_strategy) (up # hidden) (g, ph, (s, [])) =
      Inr (g1, ph1, (s1, calls1))"
    using recorded_calls[OF that] by simp
  show ?thesis using a b c d e f by blast
qed

theorem strategy_sees_only_first_dealer_card_witness:
  "cards (small_game [''6'', ''9'', ''K'', ''5'', ''10'']) = [''6''] @ [''9'', ''K'', ''5'', ''10''] \<and>
   small_game [''6'', ''2'', ''K'', ''5'', ''10''] =
     (small_game [''6'', ''9'', ''K'', ''5'', ''10''])\<lparr>cards := [''6''] @ [''2'', ''K'', ''5'', ''10'']\<rparr> \<and>
   deal_hands (small_game [''6'', ''9'', ''K'', ''5'', ''10'']) =
     Inr ([''10'', ''5''], [''K'', ''9''], small_game [''6'']) \<and>
   deal_hands (small_game [''6'', ''2'', ''K'', ''5'', ''10'']) =
     Inr ([''10'', ''5''], [''K'', ''2''], small_game [''6'']) \<and>
   player_turn PlayerStrategy_call [''K'', ''9'']
     (small_game [''6''], [''10'', ''5''], PlayerStrategy_init 1) =
     Inr (small_game [], [''10'', ''5'', ''6''], PlayerStrategy_init 1) \<and>
   player_turn PlayerStrategy_call [''K'', ''2'']
     (small_game [''6''], [''10'', ''5''], PlayerStrategy_init 1) =
     Inr (small_game [], [''10'', ''5'', ''6''], PlayerStrategy_init 1) \<and>
   player_turn (recording PlayerStrategy_call) [''K'', ''9'']
     (small_game [''6''], [''10'', ''5''], (PlayerStrategy_init 1, [])) =
     Inr (small_game [], [''10'', ''5'', ''6''],
          (PlayerStrategy_init 1, [([''10'', ''5''], ''K''), ([''10'', ''5'', ''6''], ''K'')])) \<and>
   (\<exists>drawn. [''10'', ''5'', ''6''] = [''10'', ''5''] @ drawn \<and>
      [([''10'', ''5''], ''K''), ([''10'', ''5'', ''6''], ''K'')] =
      map (\<lambda>p. ([''10'', ''5''] @ p, ''K'')) (prefixes drawn))"
proof -
  let ?g = "small_game [''6'', ''9'', ''K'', ''5'', ''10'']"
  let ?g' = "small_game [''6'', ''2'', ''K'', ''5'', ''10'']"
  let ?ps = "PlayerStrategy_init 1"
  let ?R = "recording PlayerStrategy_call"
  let ?calls = "[([''10'', ''5''], ''K''), ([''10'', ''5'', ''6''], ''K'')]"
  have c: "cards ?g = [''6''] @ [''9'', ''K'', ''5'', ''10'']" by (simp add: small_game_def)
  have g': "?g' = ?g\<lparr>cards := [''6''] @ [''2'', ''K'', ''5'', ''10'']\<rparr>"
    by (simp add: small_game_def)
  have u: "?g\<lparr>cards := [''6'']\<rparr> = small_game [''6'']"
    "(small_game [''6''])\<lparr>cards := []\<rparr> = small_game []"
    "cards (small_game [''6'']) = [] @ [''6'']"
    by (simp_all add: small_game_def)
  have b1: "basic [''10'', ''5''] ''K'' = Inr True" by code_simp
  have b2: "basic [''10'', ''5'', ''6''] ''K'' = Inr False" by code_simp
  have s1: "PlayerStrategy_call ?ps [''10'', ''5''] ''K'' = Inr (True, ?ps)"
    by (simp add: PlayerStrategy_call_def PlayerStrategy_init_def train_strategy_def b1)
  have s2: "PlayerStrategy_call ?ps [''10'', ''5'', ''6''] ''K'' = Inr (False, ?ps)"
    by (simp add: PlayerStrategy_call_def PlayerStrategy_init_def train_strategy_def b2)
  have r1: "?R (?ps, []) [''10'', ''5''] ''K'' = Inr (True, (?ps, [([''10'', ''5''], ''K'')]))"
    by (simp add: recording_def s1)
  have r2: "?R (?ps, [([''10'', ''5''], ''K'')]) [''10'', ''5'', ''6''] ''K'' = Inr (False, (?ps, ?calls))"
    by (simp add: recording_def s2)
  note T = strategy_sees_only_first_dealer_card[of ?g "[''6'']" "''9''" "''K''" "''5''" "''10''"
      ?g' "''2''" PlayerStrategy_call ?ps "''K''" "[''9'']" "(small_game [''6''], [''10'', ''5''], ?ps)"
      "[''2'']" "small_game [''6'']" "[''10'', ''5'']" "small_game []" "[''10'', ''5'', ''6'']"
      ?ps ?calls]
  have run: "player_turn PlayerStrategy_call [''K'', ''9''] (small_game [''6''], [''10'', ''5''], ?ps) =
      Inr (small_game [], [''10'', ''5'', ''6''], ?ps)"
    using player_turn_hit[of PlayerStrategy_call ?ps "[''10'', ''5'']" "''K''" ?ps
        "small_game [''6'']" "[]" "''6''" "[''9'']"]
      player_turn_stand[of PlayerStrategy_call ?ps "[''10'', ''5'', ''6'']" "''K''" ?ps
        "[''9'']" "small_game []"] s1 s2 u(2,3)
    by simp
  have rec: "player_turn ?R [''K'', ''9''] (small_game [''6''], [''10'', ''5''], (?ps, [])) =
      Inr (small_game [], [''10'', ''5'', ''6''], (?ps, ?calls))"
    using player_turn_hit[of ?R "(?ps, [])" "[''10'', ''5'']" "''K''"
        "(?ps, [([''10'', ''5''], ''K'')])" "small_game [''6'']" "[]" "''6''" "[''9'']"]
      player_turn_stand[of ?R "(?ps, [([''10'', ''5''], ''K'')])" "[''10'', ''5'', ''6'']" "''K''"
        "(?ps, ?calls)" "[''9'']" "small_game []"] r1 r2 u(2,3)
    by simp
  from T c g' u(1) have d1: "deal_hands ?g = Inr ([''10'', ''5''], [''K'', ''9''], small_game [''6''])"
    and d2: "deal_hands ?g' = Inr ([''10'', ''5''], [''K'', ''2''], small_game [''6''])"
    by simp_all
  from T have "player_turn PlayerStrategy_call [''K'', ''9''] (small_game [''6''], [''10'', ''5''], ?ps) =
      player_turn PlayerStrategy_call [''K'', ''2''] (small_game [''6''], [''10'', ''5''], ?ps)"
    by simp
  with run have run': "player_turn PlayerStrategy_call [''K'', ''2''] (small_game [''6''], [''10'', ''5''], ?ps) =
      Inr (small_game [], [''10'', ''5'', ''6''], ?ps)"
    by simp
  from T rec have ex: "\<exists>drawn. [''10'', ''5'', ''6''] = [''10'', ''5''] @ drawn \<and>
      ?calls = map (\<lambda>p. ([''10'', ''5''] @ p, ''K'')) (prefixes drawn)"
    by (simp only: simp_thms)
  show ?thesis using c g' d1 d2 run run' rec ex by (simp only: simp_thms)
qed

section \<open>The deck\<close>

lemma length_list_times: "length (list_times xs n) = nat n * length xs"
  by (simp add: list_times_def length_concat sum_list_replicate)

lemma mset_concat_replicate: "mset (concat (replicate k xs)) = repeat_mset k (mset xs)"
  by (induction k) simp_all

lemma count_list_times: "count (mset (list_times xs n)) x = nat n * count (mset xs) x"
  by (simp add: list_times_def mset_concat_replicate)

lemma distinct_RANKS: "distinct RANKS"
  by (simp add: RANKS_def)

lemma length_CARD_DECK: "length CARD_DECK = 52"
  by (simp add: CARD_DECK_def RANKS_def length_concat sum_list_replicate)

lemma set_CARD_DECK: "set CARD_DECK = set RANKS"
  by (simp add: CARD_DECK_def)

lemma count_CARD_DECK: "r \<in> set RANKS \<Longrightarrow> count (mset CARD_DECK) r = 4"
proof -
  assume "r \<in> set RANKS"
  then have "count (mset RANKS) r = 1"
    using distinct_RANKS by (simp add: distinct_count_atmost_1)
  then show ?thesis by (simp add: CARD_DECK_def mset_concat_replicate)
qed

lemma set_list_times: "1 \<le> n \<Longrightarrow> set (list_times xs n) = set xs"
  by (cases "nat n") (auto simp: list_times_def)

lemma cards_init:
  "cards (fst (init shuffle n lg rng)) = fst (shuffle rng (list_times CARD_DECK n))"
  by (simp add: init_def split: prod.splits)

lemma cards_reset:
  "cards (fst (reset shuffle (self, rng))) =
   fst (shuffle rng (list_times CARD_DECK (n_card_decks self)))"
  by (simp add: reset_def split: prod.splits)

lemma config_reset:
  "n_card_decks (fst (reset shuffle (self, rng))) = n_card_decks self"
  by (simp add: reset_def split: prod.splits)

lemma fresh_deck:
  assumes "permutes_cards shuffle" and "1 \<le> n"
    and "d = fst (shuffle rng (list_times CARD_DECK n))"
  shows "mset d = mset (list_times CARD_DECK n)"
    and "int (length d) = 52 * n"
    and "r \<in> set RANKS \<Longrightarrow> int (count (mset d) r) = 4 * n"
    and "set d = set RANKS"
proof -
  show m: "mset d = mset (list_times CARD_DECK n)"
    using assms(1,3) by (simp add: permutes_cards_def)
  have "length d = length (list_times CARD_DECK n)"
    using m by (rule mset_eq_length)
  then show "int (length d) = 52 * n"
    using assms(2) by (simp add: length_list_times length_CARD_DECK)
  show "int (count (mset d) r) = 4 * n" if "r \<in> set RANKS"
    using that assms(2) by (simp add: m count_list_times count_CARD_DECK)
  have "set d = set (list_times CARD_DECK n)"
    using m by (rule mset_eq_setD)
  then show "set d = set RANKS"
    using assms(2) by (simp add: set_list_times set_CARD_DECK)
qed

lemma draws_mset: "draws g drawn g1 \<Longrightarrow> mset (cards g1) + mset drawn = mset (cards g)"
proof (induction rule: draws.induct)
  case (draws_none g)
  show ?case by simp
next
  case (draws_more g drawn g1 c g2)
  from deal_card_Inr[OF draws_more.hyps(2)] have "cards g1 = cards g2 @ [c]" by simp
  with draws_more.IH show ?case by simp
qed

lemma deal_card_length:
  "deal_card g = Inr (c, g') \<Longrightarrow> length (cards g') + 1 = length (cards g)"
  using deal_card_Inr[of g c g'] by (metis length_append_singleton Suc_eq_plus1)

lemma mset_rotate_eq: "mset (rotate k xs) = mset xs"
proof -
  let ?m = "k mod length xs"
  have a: "mset (take ?m xs) + mset (drop ?m xs) = mset xs"
    by (metis append_take_drop_id mset_append)
  have "mset (rotate k xs) = mset (drop ?m xs) + mset (take ?m xs)"
    by (simp add: rotate_drop_take)
  then show ?thesis using a by (metis union_commute)
qed

lemma permutes_cut_shuffle: "permutes_cards cut_shuffle"
  by (simp add: permutes_cards_def cut_shuffle_def mset_rotate_eq)

text \<open>
  C8. When shuffling permutes and \<open>n \<ge> 1\<close>, the deck of a game just constructed or
  reset with \<open>n\<close> decks has \<open>52 * n\<close> cards, four times \<open>n\<close> of each of the thirteen
  ranks; every successful \<open>deal_card\<close> shortens the deck by one card; and after any
  sequence of draws from such a deck the cards left and the cards drawn together are the
  cards of a fresh deck of \<open>n\<close> decks.
\<close>

theorem deck_invariant:
  assumes "permutes_cards shuffle" and "1 \<le> n"
    and "g0 = fst (init shuffle n lg rng) \<or>
         (n_card_decks self = n \<and> g0 = fst (reset shuffle (self, rng)))"
  shows "int (length (cards g0)) = 52 * n \<and>
         (\<forall>r \<in> set RANKS. int (count (mset (cards g0)) r) = 4 * n) \<and>
         set (cards g0) = set RANKS \<and>
         mset (cards g0) = mset (list_times CARD_DECK n) \<and>
         (deal_card g = Inr (c, g') \<longrightarrow> length (cards g') + 1 = length (cards g)) \<and>
         (draws g0 drawn g1 \<longrightarrow>
            mset (cards g1) + mset drawn = mset (list_times CARD_DECK n))"
proof -
  from assms(3) have d: "cards g0 = fst (shuffle rng (list_times CARD_DECK n))"
    by (auto simp: cards_init cards_reset)
  note f = fresh_deck[OF assms(1,2) d]
  have "mset (cards g1) + mset drawn = mset (list_times CARD_DECK n)" if "draws g0 drawn g1"
    using draws_mset[OF that] f(1) by simp
  then show ?thesis using f deal_card_length[of g c g'] by blast
qed

theorem deck_invariant_witness:
  "permutes_cards cut_shuffle \<and> (1::int) \<le> 1 \<and>
   int (length (cards (fst (init cut_shuffle 1 False 3)))) = 52 * 1 \<and>
   int (count (mset (cards (fst (init cut_shuffle 1 False 3)))) ''K'') = 4 * 1 \<and>
   deal_card (fst (init cut_shuffle 1 False 3)) =
     Inr (''4'', small_game (take 51 (rotate 3 CARD_DECK))) \<and>
   length (cards (small_game (take 51 (rotate 3 CARD_DECK)))) + 1 =
     length (cards (fst (init cut_shuffle 1 False 3))) \<and>
   draws (fst (init cut_shuffle 1 False 3)) [''4'', ''3'']
     (small_game (take 50 (rotate 3 CARD_DECK))) \<and>
   mset (cards (small_game (take 50 (rotate 3 CARD_DECK)))) + mset [''4'', ''3''] =
     mset (list_times CARD_DECK 1)"
proof -
  let ?D = "rotate 3 CARD_DECK"
  let ?g0 = "fst (init cut_shuffle 1 False 3)"
  let ?g1 = "small_game (take 51 ?D)" and ?g2 = "small_game (take 50 ?D)"
  have lt: "list_times CARD_DECK 1 = CARD_DECK" by (simp add: list_times_def)
  have g0: "?g0 = small_game ?D"
    by (simp add: init_def cut_shuffle_def small_game_def lt)
  have D1: "?D = take 51 ?D @ [''4'']" by code_simp
  have D2: "take 51 ?D = take 50 ?D @ [''3'']" by code_simp
  have c0: "cards (small_game ?D) = take 51 ?D @ [''4'']"
    using D1 by (simp add: small_game_def)
  have c1: "cards ?g1 = take 50 ?D @ [''3'']"
    using D2 by (simp add: small_game_def)
  have u: "(small_game ?D)\<lparr>cards := take 51 ?D\<rparr> = ?g1" "?g1\<lparr>cards := take 50 ?D\<rparr> = ?g2"
    by (simp_all add: small_game_def)
  have d1: "deal_card ?g0 = Inr (''4'', ?g1)"
    using deal_card_snoc[OF c0] u(1) g0 by simp
  have d2: "deal_card ?g1 = Inr (''3'', ?g2)"
    using deal_card_snoc[OF c1] u(2) by simp
  have dr: "draws ?g0 [''4'', ''3''] ?g2"
    using draws_more[OF draws_more[OF draws_none[of ?g0] d1] d2] by simp
  note T = deck_invariant[where shuffle = cut_shuffle and n = 1 and ?g0.0 = ?g0 and lg = False
      and rng = 3 and self = ?g0 and g = ?g0 and c = "''4''" and g' = ?g1
      and drawn = "[''4'', ''3'']" and ?g1.0 = ?g2, OF permutes_cut_shuffle]
  have T': "int (length (cards ?g0)) = 52 * 1 \<and>
         (\<forall>r \<in> set RANKS. int (count (mset (cards ?g0)) r) = 4 * 1) \<and>
         set (cards ?g0) = set RANKS \<and>
         mset (cards ?g0) = mset (list_times CARD_DECK 1) \<and>
         (deal_card ?g0 = Inr (''4'', ?g1) \<longrightarrow> length (cards ?g1) + 1 = length (cards ?g0)) \<and>
         (draws ?g0 [''4'', ''3''] ?g2 \<longrightarrow>
            mset (cards ?g2) + mset [''4'', ''3''] = mset (list_times CARD_DECK 1))"
    by (rule T) simp_all
  have k: "''K'' \<in> set RANKS" by (simp add: RANKS_def)
  from T' k have cnt: "int (count (mset (cards ?g0)) ''K'') = 4 * 1" by blast
  from T' d1 have len: "length (cards ?g1) + 1 = length (cards ?g0)" by blast
  from T' dr have inv: "mset (cards ?g2) + mset [''4'', ''3''] = mset (list_times CARD_DECK 1)"
    by blast
  from T' have l52: "int (length (cards ?g0)) = 52 * 1" by blast
  have one: "(1::int) \<le> 1" by simp
  show ?thesis
    by (rule conjI permutes_cut_shuffle one l52 cnt d1 len dr inv)+
qed

section \<open>The experiment\<close>

lemma determine_winner_range:
  "determine_winner p d = Inr r \<Longrightarrow> r \<in> {''win'', ''lose'', ''draw''}"
  by (auto simp: determine_winner_def split: sum.splits if_splits)

lemma deal_card_config:
  "deal_card g = Inr (c, g') \<Longrightarrow> n_card_decks g' = n_card_decks g"
  by (auto simp: deal_card_def split: if_splits)

lemma deal_hands_config:
  "deal_hands g = Inr (ph, dh, g') \<Longrightarrow> n_card_decks g' = n_card_decks g"
  by (auto simp: deal_hands_def split: sum.splits dest!: deal_card_config)

lemma player_turn_config:
  "player_turn player_strategy dh (self, ph, s) = Inr (self1, ph1, s1) \<Longrightarrow>
   n_card_decks self1 = n_card_decks self"
proof (induction player_strategy dh "(self, ph, s)" arbitrary: self ph s rule: player_turn.induct)
  case (1 player_strategy dh self ph s)
  from "1.prems" obtain up hidden where dh: "dh = up # hidden"
    by (subst (asm) player_turn.simps) (auto split: list.splits)
  from "1.prems" dh obtain hit s' where a: "player_strategy s ph up = Inr (hit, s')"
    by (subst (asm) player_turn.simps) (auto split: sum.splits)
  show ?case
  proof (cases hit)
    case True
    with "1.prems" a dh obtain c g where d: "deal_card self = Inr (c, g)"
      and r: "player_turn player_strategy dh (g, ph @ [c], s') = Inr (self1, ph1, s1)"
      by (subst (asm) player_turn.simps) (auto split: sum.splits)
    from "1.hyps"[OF dh a refl True d refl r] deal_card_config[OF d] show ?thesis by simp
  next
    case False
    with "1.prems" a dh have "self1 = self"
      by (subst (asm) player_turn.simps) simp
    then show ?thesis by simp
  qed
qed

lemma dealer_turn_config:
  "dealer_turn (self, dh) = Inr (self1, dh1) \<Longrightarrow> n_card_decks self1 = n_card_decks self"
  using dealer_turn_final[of self dh self1 dh1]
  by (metis game.select_convs(1) game.surjective game.update_convs(3))

lemma play_result:
  assumes "play player_strategy (g, s) = Inr (r, g', s')"
  shows "r \<in> {''win'', ''lose'', ''draw''}" and "n_card_decks g' = n_card_decks g"
proof -
  from assms obtain ph dh g1 g2 ph' dh' where
    a: "deal_hands g = Inr (ph, dh, g1)"
    and b: "player_turn player_strategy dh (g1, ph, s) = Inr (g2, ph', s')"
    and c: "dealer_turn (g2, dh) = Inr (g', dh')"
    and d: "determine_winner ph' dh' = Inr r"
    by (auto simp: play_def split: sum.splits)
  from d show "r \<in> {''win'', ''lose'', ''draw''}" by (rule determine_winner_range)
  from a b c show "n_card_decks g' = n_card_decks g"
    using deal_hands_config player_turn_config dealer_turn_config by metis
qed

lemma increment_counts:
  assumes "r \<in> {''win'', ''lose'', ''draw''}"
  shows "\<exists>w' l' d'. increment [(''win'', w), (''lose'', l), (''draw'', d)] r =
            Inr [(''win'', w'), (''lose'', l'), (''draw'', d')] \<and>
          w \<le> w' \<and> l \<le> l' \<and> d \<le> d' \<and> w' + l' + d' = w + l + d + 1"
  using assms by (auto simp: increment_def)

lemma experiment_loop_step:
  assumes "experiment_loop shuffle player_strategy (Suc k) (res, g, r, st) = Inr out"
  shows "\<exists>result g1 st1 res1.
           play player_strategy (g, st) = Inr (result, g1, st1) \<and>
           increment res result = Inr res1 \<and>
           cards (fst (reset shuffle (g1, r))) =
             fst (shuffle r (list_times CARD_DECK (n_card_decks g))) \<and>
           experiment_loop shuffle player_strategy k
             (res1, fst (reset shuffle (g1, r)), snd (reset shuffle (g1, r)), st1) = Inr out"
proof -
  from assms obtain result g1 st1 res1 where
    p: "play player_strategy (g, st) = Inr (result, g1, st1)"
    and i: "increment res result = Inr res1"
    and l: "experiment_loop shuffle player_strategy k
             (res1, fst (reset shuffle (g1, r)), snd (reset shuffle (g1, r)), st1) = Inr out"
    by (auto split: sum.splits prod.splits)
  have "cards (fst (reset shuffle (g1, r))) =
      fst (shuffle r (list_times CARD_DECK (n_card_decks g)))"
    using play_result(2)[OF p] by (simp add: cards_reset)
  with p i l show ?thesis by blast
qed

lemma experiment_loop_counts:
  "experiment_loop shuffle player_strategy k
     ([(''win'', w), (''lose'', l), (''draw'', d)], g, rng, s) = Inr (results, g', rng', s') \<Longrightarrow>
   \<exists>w' l' d'. results = [(''win'', w'), (''lose'', l'), (''draw'', d')] \<and>
     w \<le> w' \<and> l \<le> l' \<and> d \<le> d' \<and> w' + l' + d' = w + l + d + int k \<and>
     n_card_decks g' = n_card_decks g \<and>
     (0 < k \<longrightarrow> (\<exists>r. cards g' = fst (shuffle r (list_times CARD_DECK (n_card_decks g)))))"
proof (induction k arbitrary: w l d g rng s)
  case 0
  then show ?case by auto
next
  case (Suc k)
  let ?res = "[(''win'', w), (''lose'', l), (''draw'', d)]"
  from experiment_loop_step[OF Suc.prems] obtain result g1 st1 res1 where
    p: "play player_strategy (g, s) = Inr (result, g1, st1)"
    and i: "increment ?res result = Inr res1"
    and c: "cards (fst (reset shuffle (g1, rng))) =
             fst (shuffle rng (list_times CARD_DECK (n_card_decks g)))"
    and lp: "experiment_loop shuffle player_strategy k
             (res1, fst (reset shuffle (g1, rng)), snd (reset shuffle (g1, rng)), st1) =
             Inr (results, g', rng', s')"
    by blast
  from increment_counts[OF play_result(1)[OF p], of w l d] i obtain w1 l1 d1 where
    r1: "res1 = [(''win'', w1), (''lose'', l1), (''draw'', d1)]"
    and m: "w \<le> w1" "l \<le> l1" "d \<le> d1" "w1 + l1 + d1 = w + l + d + 1"
    by auto
  have n: "n_card_decks (fst (reset shuffle (g1, rng))) = n_card_decks g"
    using play_result(2)[OF p] by (simp add: config_reset)
  from Suc.IH[OF lp[unfolded r1]] obtain w' l' d' where
    ih: "results = [(''win'', w'), (''lose'', l'), (''draw'', d')]"
      "w1 \<le> w'" "l1 \<le> l'" "d1 \<le> d'" "w' + l' + d' = w1 + l1 + d1 + int k"
      "n_card_decks g' = n_card_decks (fst (reset shuffle (g1, rng)))"
      "0 < k \<longrightarrow> (\<exists>r. cards g' =
         fst (shuffle r (list_times CARD_DECK (n_card_decks (fst (reset shuffle (g1, rng)))))))"
    by blast
  have fresh: "\<exists>r. cards g' = fst (shuffle r (list_times CARD_DECK (n_card_decks g)))"
  proof (cases k)
    case 0
    with lp have "g' = fst (reset shuffle (g1, rng))" by simp
    with c show ?thesis by blast
  next
    case (Suc j)
    with ih(7) n show ?thesis by simp
  qed
  have "w \<le> w'" "l \<le> l'" "d \<le> d'" "w' + l' + d' = w + l + d + int (Suc k)"
    using m ih(2-5) by simp_all
  with ih(1,6) n fresh show ?case by simp
qed

text \<open>
  C4. For \<open>n_runs \<ge> 0\<close>, an experiment that completes returns the three keys
  \<open>win\<close>, \<open>lose\<close>, \<open>draw\<close> (in the order they were created) with counts that are not
  negative and add up to \<open>n_runs\<close>; after every round the deck is replaced by a shuffle
  of the full deck of \<open>n_card_decks\<close> decks, on which the remaining rounds run, and so is
  the deck the experiment leaves behind.
\<close>

theorem experiment_counts:
  "(0 \<le> n_runs \<and>
    game_experiment shuffle player_strategy n_runs (self, rng, s) = Inr (results, self', rng', s') \<longrightarrow>
      (\<exists>w l d. results = [(''win'', w), (''lose'', l), (''draw'', d)] \<and>
         0 \<le> w \<and> 0 \<le> l \<and> 0 \<le> d \<and> w + l + d = n_runs) \<and>
      n_card_decks self' = n_card_decks self \<and>
      (1 \<le> n_runs \<longrightarrow>
         (\<exists>r. cards self' = fst (shuffle r (list_times CARD_DECK (n_card_decks self)))))) \<and>
   (experiment_loop shuffle player_strategy (Suc k) (res, g, r, st) = Inr out \<longrightarrow>
      (\<exists>result g1 st1 res1.
         play player_strategy (g, st) = Inr (result, g1, st1) \<and>
         increment res result = Inr res1 \<and>
         cards (fst (reset shuffle (g1, r))) =
           fst (shuffle r (list_times CARD_DECK (n_card_decks g))) \<and>
         experiment_loop shuffle player_strategy k
           (res1, fst (reset shuffle (g1, r)), snd (reset shuffle (g1, r)), st1) = Inr out))"
proof -
  have A: "(\<exists>w l d. results = [(''win'', w), (''lose'', l), (''draw'', d)] \<and>
         0 \<le> w \<and> 0 \<le> l \<and> 0 \<le> d \<and> w + l + d = n_runs) \<and>
      n_card_decks self' = n_card_decks self \<and>
      (1 \<le> n_runs \<longrightarrow>
         (\<exists>r. cards self' = fst (shuffle r (list_times CARD_DECK (n_card_decks self)))))"
    if n: "0 \<le> n_runs"
      and e: "game_experiment shuffle player_strategy n_runs (self, rng, s) =
        Inr (results, self', rng', s')"
  proof -
    from e have "experiment_loop shuffle player_strategy (nat n_runs)
       ([(''win'', 0), (''lose'', 0), (''draw'', 0)], self, rng, s) = Inr (results, self', rng', s')"
      by (simp add: game_experiment_def)
    from experiment_loop_counts[OF this] obtain w l d where
      r: "results = [(''win'', w), (''lose'', l), (''draw'', d)]"
      and nn: "0 \<le> w" "0 \<le> l" "0 \<le> d"
      and sm: "w + l + d = 0 + 0 + 0 + int (nat n_runs)"
      and cf: "n_card_decks self' = n_card_decks self"
      and fr: "0 < nat n_runs \<longrightarrow>
         (\<exists>r. cards self' = fst (shuffle r (list_times CARD_DECK (n_card_decks self))))"
      by (elim exE conjE)
    have sm': "w + l + d = n_runs" using sm n by simp
    have ex: "\<exists>w l d. results = [(''win'', w), (''lose'', l), (''draw'', d)] \<and>
         0 \<le> w \<and> 0 \<le> l \<and> 0 \<le> d \<and> w + l + d = n_runs"
      using r nn sm' by (intro exI[of _ w] exI[of _ l] exI[of _ d] conjI)
    have fr': "1 \<le> n_runs \<longrightarrow>
         (\<exists>r. cards self' = fst (shuffle r (list_times CARD_DECK (n_card_decks self))))"
    proof
      assume "1 \<le> n_runs"
      then have "0 < nat n_runs" by simp
      with fr show "\<exists>r. cards self' = fst (shuffle r (list_times CARD_DECK (n_card_decks self)))"
        by (rule_tac mp)
    qed
    from ex cf fr' show ?thesis by (intro conjI)
  qed
  show ?thesis
  proof (rule conjI; rule impI)
    assume h: "0 \<le> n_runs \<and>
      game_experiment shuffle player_strategy n_runs (self, rng, s) = Inr (results, self', rng', s')"
    then have h1: "0 \<le> n_runs"
      and h2: "game_experiment shuffle player_strategy n_runs (self, rng, s) =
        Inr (results, self', rng', s')"
      by simp_all
    show "(\<exists>w l d. results = [(''win'', w), (''lose'', l), (''draw'', d)] \<and>
         0 \<le> w \<and> 0 \<le> l \<and> 0 \<le> d \<and> w + l + d = n_runs) \<and>
      n_card_decks self' = n_card_decks self \<and>
      (1 \<le> n_runs \<longrightarrow>
         (\<exists>r. cards self' = fst (shuffle r (list_times CARD_DECK (n_card_decks self)))))"
      by (rule A[OF h1 h2])
  next
    assume "experiment_loop shuffle player_strategy (Suc k) (res, g, r, st) = Inr out"
    then show "\<exists>result g1 st1 res1.
         play player_strategy (g, st) = Inr (result, g1, st1) \<and>
         increment res result = Inr res1 \<and>
         cards (fst (reset shuffle (g1, r))) =
           fst (shuffle r (list_times CARD_DECK (n_card_decks g))) \<and>
         experiment_loop shuffle player_strategy k
           (res1, fst (reset shuffle (g1, r)), snd (reset shuffle (g1, r)), st1) = Inr out"
      by (rule experiment_loop_step)
  qed
qed

theorem experiment_counts_witness:
  "(0::int) \<le> 5 \<and>
   game_experiment cut_shuffle (plain basic) 5 (small_game (rotate 3 CARD_DECK), 4, ()) =
     Inr ([(''win'', 3), (''lose'', 2), (''draw'', 0)], small_game (rotate 8 CARD_DECK), 9, ()) \<and>
   (\<exists>w l d. [(''win'', 3), (''lose'', 2), (''draw'', 0)] = [(''win'', w), (''lose'', l), (''draw'', d)] \<and>
      0 \<le> w \<and> 0 \<le> l \<and> 0 \<le> d \<and> w + l + d = (5::int)) \<and>
   (\<exists>r. cards (small_game (rotate 8 CARD_DECK)) = fst (cut_shuffle r (list_times CARD_DECK 1))) \<and>
   experiment_loop cut_shuffle (plain basic) (Suc 4)
     ([(''win'', 0), (''lose'', 0), (''draw'', 0)], small_game (rotate 3 CARD_DECK), 4, ()) =
     Inr ([(''win'', 3), (''lose'', 2), (''draw'', 0)], small_game (rotate 8 CARD_DECK), 9, ()) \<and>
   (\<exists>result g1 st1 res1.
      play (plain basic) (small_game (rotate 3 CARD_DECK), ()) = Inr (result, g1, st1) \<and>
      increment [(''win'', 0), (''lose'', 0), (''draw'', 0)] result = Inr res1 \<and>
      cards (fst (reset cut_shuffle (g1, 4))) =
        fst (cut_shuffle 4 (list_times CARD_DECK (n_card_decks (small_game (rotate 3 CARD_DECK))))) \<and>
      experiment_loop cut_shuffle (plain basic) 4
        (res1, fst (reset cut_shuffle (g1, 4)), snd (reset cut_shuffle (g1, 4)), st1) =
        Inr ([(''win'', 3), (''lose'', 2), (''draw'', 0)], small_game (rotate 8 CARD_DECK), 9, ()))"
proof -
  let ?g0 = "small_game (rotate 3 CARD_DECK)" and ?g5 = "small_game (rotate 8 CARD_DECK)"
  let ?z = "[(''win'', 0::int), (''lose'', 0), (''draw'', 0)]"
  let ?res = "[(''win'', 3::int), (''lose'', 2), (''draw'', 0)]"
  have run: "game_experiment cut_shuffle (plain basic) 5 (?g0, 4, ()) = Inr (?res, ?g5, 9, ())"
    by code_simp
  have five: "nat 5 = Suc 4" by simp
  have loop: "experiment_loop cut_shuffle (plain basic) (Suc 4) (?z, ?g0, 4, ()) =
      Inr (?res, ?g5, 9, ())"
    using run unfolding game_experiment_def five by simp
  have n: "n_card_decks ?g0 = 1" by (simp add: small_game_def)
  note T = experiment_counts[of 5 cut_shuffle "plain basic" ?g0 4 "()" ?res ?g5 9 "()"
      4 ?z ?g0 4 "()" "(?res, ?g5, 9, ())"]
  from T run have a: "\<exists>w l d. ?res = [(''win'', w), (''lose'', l), (''draw'', d)] \<and>
      0 \<le> w \<and> 0 \<le> l \<and> 0 \<le> d \<and> w + l + d = (5::int)"
    by simp
  from T run n have b: "\<exists>r. cards ?g5 = fst (cut_shuffle r (list_times CARD_DECK 1))"
    by simp
  have c: "\<exists>result g1 st1 res1.
      play (plain basic) (?g0, ()) = Inr (result, g1, st1) \<and>
      increment ?z result = Inr res1 \<and>
      cards (fst (reset cut_shuffle (g1, 4))) =
        fst (cut_shuffle 4 (list_times CARD_DECK (n_card_decks ?g0))) \<and>
      experiment_loop cut_shuffle (plain basic) 4
        (res1, fst (reset cut_shuffle (g1, 4)), snd (reset cut_shuffle (g1, 4)), st1) =
        Inr (?res, ?g5, 9, ())"
    by (rule T[THEN conjunct2, THEN mp, OF loop])
  have z: "(0::int) \<le> 5" by simp
  show ?thesis by (rule conjI z run a b loop c)+
qed

section \<open>Configurations that are not validated\<close>

lemma list_times_nonpos: "n \<le> 0 \<Longrightarrow> list_times xs n = []"
  by (simp add: list_times_def)

text \<open>
  C9, as the code has it. Nothing validates the configuration: constructing a game with
  \<open>n_card_decks \<le> 0\<close> raises nothing and gives a game with an empty deck, and an
  experiment with \<open>n_runs < 0\<close> raises nothing, plays no round, leaves the game as it is
  and returns the three counts at 0.
\<close>

theorem no_validation:
  assumes "permutes_cards shuffle"
  shows "(n \<le> 0 \<longrightarrow> fst (init shuffle n lg rng) = \<lparr>n_card_decks = n, logging = lg, cards = []\<rparr>) \<and>
         (n_runs < 0 \<longrightarrow>
            game_experiment shuffle player_strategy n_runs (self, rng, s) =
            Inr ([(''win'', 0), (''lose'', 0), (''draw'', 0)], self, rng, s))"
proof -
  obtain cs r where sh: "shuffle rng [] = (cs, r)" by fastforce
  have "mset (fst (shuffle rng [])) = mset []"
    using assms unfolding permutes_cards_def by blast
  then have "cs = []" using sh by simp
  then have "fst (init shuffle n lg rng) = \<lparr>n_card_decks = n, logging = lg, cards = []\<rparr>"
    if "n \<le> 0"
    using that sh by (simp add: init_def list_times_nonpos)
  moreover have "game_experiment shuffle player_strategy n_runs (self, rng, s) =
            Inr ([(''win'', 0), (''lose'', 0), (''draw'', 0)], self, rng, s)" if "n_runs < 0"
    using that by (simp add: game_experiment_def)
  ultimately show ?thesis by blast
qed

theorem no_validation_witness:
  "permutes_cards cut_shuffle \<and> (-2::int) \<le> 0 \<and>
   fst (init cut_shuffle (-2) True 4) = \<lparr>n_card_decks = -2, logging = True, cards = []\<rparr> \<and>
   (-3::int) < 0 \<and>
   game_experiment cut_shuffle (plain basic) (-3) (small_game (rotate 3 CARD_DECK), 4, ()) =
     Inr ([(''win'', 0), (''lose'', 0), (''draw'', 0)], small_game (rotate 3 CARD_DECK), 4, ())"
  using no_validation[OF permutes_cut_shuffle, of "-2" True 4 "-3" "plain basic"
      "small_game (rotate 3 CARD_DECK)" "()"] permutes_cut_shuffle
  by simp

text \<open>
  C9 as stated fails: with zero decks the constructor returns a game whose deck is empty,
  and with \<open>n_runs = -1\<close> the experiment returns all-zero statistics and no error.
\<close>

theorem no_validation_counterexample:
  "cards (fst (init cut_shuffle 0 True 0)) = [] \<and>
   game_experiment cut_shuffle (plain basic) (-1) (fst (init cut_shuffle 1 False 3), 4, ()) =
     Inr ([(''win'', 0), (''lose'', 0), (''draw'', 0)], fst (init cut_shuffle 1 False 3), 4, ())"
  by (simp add: init_def list_times_def cut_shuffle_def game_experiment_def)

end
